theory Spec2Isabelle
  imports Complex_Main
begin

section \<open>JavaScript values as the automation engine sees them\<close>

text \<open>
  The automation engine is modelled from its later variant, \<^verbatim>\<open>dist/automations-extension-2\<close>;
  the earlier variant, \<^verbatim>\<open>src/automations-extension.ts\<close>, follows in a section of its own.
  The engine reads state snapshots whose fields are strings or numbers
  (\<^verbatim>\<open>Update = Record<string, string | number>\<close>). A number is an IEEE double; only its
  order and equality are used, so it is modelled by its real value together with the three
  non-finite doubles. A field that is absent reads as \<^verbatim>\<open>undefined\<close>, modelled by
  \<open>None\<close>.
\<close>

datatype jsnum = NaN | NegInf | Fin real | PosInf

datatype val = Num jsnum | Str string

type_synonym jsobj = "string \<rightharpoonup> val"

text \<open>\<^verbatim>\<open>a < b\<close> on numbers: false as soon as one side is NaN.\<close>

fun num_lt :: "jsnum \<Rightarrow> jsnum \<Rightarrow> bool" where
  "num_lt NaN _ = False"
| "num_lt _ NaN = False"
| "num_lt _ NegInf = False"
| "num_lt NegInf _ = True"
| "num_lt PosInf _ = False"
| "num_lt (Fin a) PosInf = True"
| "num_lt (Fin a) (Fin b) = (a < b)"

text \<open>\<^verbatim>\<open>a <= b\<close> on numbers: \<^verbatim>\<open>!(b < a)\<close> unless one side is NaN.\<close>

fun num_le :: "jsnum \<Rightarrow> jsnum \<Rightarrow> bool" where
  "num_le NaN _ = False"
| "num_le _ NaN = False"
| "num_le a b = (\<not> num_lt b a)"

text \<open>
  The thresholds \<^verbatim>\<open>above\<close> and \<^verbatim>\<open>below\<close> are numbers, so a relational operator with
  a snapshot field on the other side converts that field with ToNumber. The conversion of a
  string is the runtime's; it is the parameter \<open>tn\<close>. \<^verbatim>\<open>undefined\<close> converts to NaN.
\<close>

fun to_number :: "(string \<Rightarrow> jsnum) \<Rightarrow> val option \<Rightarrow> jsnum" where
  "to_number tn None = NaN"
| "to_number tn (Some (Num n)) = n"
| "to_number tn (Some (Str s)) = tn s"

definition js_lt :: "(string \<Rightarrow> jsnum) \<Rightarrow> val option \<Rightarrow> jsnum \<Rightarrow> bool" where
  "js_lt tn v n = num_lt (to_number tn v) n"

definition js_gt :: "(string \<Rightarrow> jsnum) \<Rightarrow> val option \<Rightarrow> jsnum \<Rightarrow> bool" where
  "js_gt tn v n = num_lt n (to_number tn v)"

definition js_le :: "(string \<Rightarrow> jsnum) \<Rightarrow> val option \<Rightarrow> jsnum \<Rightarrow> bool" where
  "js_le tn v n = num_le (to_number tn v) n"

definition js_ge :: "(string \<Rightarrow> jsnum) \<Rightarrow> val option \<Rightarrow> jsnum \<Rightarrow> bool" where
  "js_ge tn v n = num_le n (to_number tn v)"

text \<open>\<^verbatim>\<open>a === b\<close>: no conversion, and NaN differs from itself.\<close>

fun strict_eq :: "val option \<Rightarrow> val option \<Rightarrow> bool" where
  "strict_eq None None = True"
| "strict_eq (Some (Num a)) (Some (Num b)) = (a \<noteq> NaN \<and> a = b)"
| "strict_eq (Some (Str a)) (Some (Str b)) = (a = b)"
| "strict_eq _ _ = False"

text \<open>
  \<^verbatim>\<open>xs.includes(x)\<close> compares with SameValueZero, under which NaN equals itself: it is
  plain membership.
\<close>

definition array_includes :: "'a list \<Rightarrow> 'a \<Rightarrow> bool" where
  "array_includes xs x = (x \<in> set xs)"

text \<open>\<^verbatim>\<open>obj.hasOwnProperty(k)\<close> on a snapshot.\<close>

definition hasOwnProperty :: "jsobj \<Rightarrow> string \<Rightarrow> bool" where
  "hasOwnProperty obj k = (obj k \<noteq> None)"

text \<open>A configuration field that holds one item or an array of items.\<close>

datatype 'a one_or_many = One 'a | Many "'a list"

fun toArray :: "'a one_or_many \<Rightarrow> 'a list" where
  "toArray (Many xs) = xs"
| "toArray (One x) = [x]"

text \<open>
  \<^verbatim>\<open>toArray\<close> of a field that may be absent: \<^verbatim>\<open>toArray(undefined)\<close> is
  \<^verbatim>\<open>[undefined]\<close>.
\<close>

fun toArrayU :: "'a one_or_many option \<Rightarrow> 'a option list" where
  "toArrayU None = [None]"
| "toArrayU (Some (Many xs)) = map Some xs"
| "toArrayU (Some (One x)) = [Some x]"

text \<open>\<^verbatim>\<open>s || d\<close> for a string field: the default replaces an absent or empty string.\<close>

fun or_default :: "string option \<Rightarrow> string \<Rightarrow> string" where
  "or_default None d = d"
| "or_default (Some s) d = (if s = [] then d else s)"

text \<open>An absent field used as a property key is the key \<^verbatim>\<open>"undefined"\<close>.\<close>

fun property_key :: "string option \<Rightarrow> string" where
  "property_key None = ''undefined''"
| "property_key (Some s) = s"

text \<open>Truthiness of an optional number (\<^verbatim>\<open>if (automation.trigger.for)\<close>).\<close>

fun truthy_num :: "jsnum option \<Rightarrow> bool" where
  "truthy_num None = False"
| "truthy_num (Some NaN) = False"
| "truthy_num (Some (Fin r)) = (r \<noteq> 0)"
| "truthy_num (Some _) = True"

text \<open>Truthiness of an optional string (\<^verbatim>\<open>!condition.entity\<close>).\<close>

fun truthy_str :: "string option \<Rightarrow> bool" where
  "truthy_str None = False"
| "truthy_str (Some s) = (s \<noteq> [])"

text \<open>
  Truthiness of \<^verbatim>\<open>trigger.entity\<close>, a string or an array of strings: every array is
  truthy, the empty one too.
\<close>

fun truthy_entity :: "string one_or_many option \<Rightarrow> bool" where
  "truthy_entity None = False"
| "truthy_entity (Some (One s)) = (s \<noteq> [])"
| "truthy_entity (Some (Many xs)) = True"


section \<open>Configuration and rules\<close>

text \<open>
  The configuration objects keep the fields the code reads. A field the code tests for
  absence (\<^verbatim>\<open>typeof x !== 'undefined'\<close>, \<^verbatim>\<open>!x\<close>, \<^verbatim>\<open>x || d\<close>) is an option.
\<close>

record trigger =
  t_platform :: string
  t_entity :: "string one_or_many option"
  t_action :: "val one_or_many option"
  t_state :: "val one_or_many option"
  t_state_l1 :: "val one_or_many option"
  t_state_l2 :: "val one_or_many option"
  t_attribute :: "string option"
  t_above :: "jsnum option"
  t_below :: "jsnum option"
  t_for :: "jsnum option"

record condition =
  c_platform :: string
  c_entity :: "string option"
  c_attribute :: "string option"
  c_state :: "val option"
  c_above :: "jsnum option"
  c_below :: "jsnum option"

text \<open>The payload of a \<^verbatim>\<open>custom\<close> action is any JSON document.\<close>

datatype json = JNull | JBool bool | JVal val | JArr "json list" | JObj "(string \<times> json) list"

record action =
  a_entity :: "string option"
  a_service :: string
  a_data :: "json option"

text \<open>A raw configuration entry, and the rule (\<^verbatim>\<open>automation\<close>) made from it.\<close>

record config_automation =
  cfg_trigger :: trigger
  cfg_action :: "action one_or_many"
  cfg_condition :: "condition one_or_many option"

record automation =
  r_id :: string
  r_trigger :: trigger
  r_action :: "action list"
  r_condition :: "condition list"

text \<open>The enums \<^verbatim>\<open>ConfigPlatform\<close>, \<^verbatim>\<open>StateOnOff\<close> and \<^verbatim>\<open>ConfigService\<close> are strings.\<close>

definition ACTION :: string where "ACTION = ''action''"
definition STATE :: string where "STATE = ''state''"
definition STATE_L1 :: string where "STATE_L1 = ''state_l1''"
definition STATE_L2 :: string where "STATE_L2 = ''state_l2''"
definition NUMERIC_STATE :: string where "NUMERIC_STATE = ''numeric_state''"

definition ON :: val where "ON = Str ''ON''"
definition OFF :: val where "OFF = Str ''OFF''"

definition TOGGLE :: string where "TOGGLE = ''toggle''"
definition TURN_ON :: string where "TURN_ON = ''turn_on''"
definition TURN_OFF :: string where "TURN_OFF = ''turn_off''"
definition CUSTOM :: string where "CUSTOM = ''custom''"

text \<open>\<^verbatim>\<open>Object.values(ConfigPlatform)\<close> and \<^verbatim>\<open>Object.values(ConfigService)\<close>.\<close>

definition platforms :: "string list" where
  "platforms = [ACTION, STATE, STATE_L1, STATE_L2, NUMERIC_STATE]"

definition services :: "string list" where
  "services = [TOGGLE, TURN_ON, TURN_OFF, CUSTOM]"

section \<open>The trigger matcher\<close>

text \<open>
  \<^verbatim>\<open>checkTrigger\<close> returns \<^verbatim>\<open>true\<close>, \<^verbatim>\<open>false\<close> or \<^verbatim>\<open>null\<close>; the caller
  \<^verbatim>\<open>runAutomationIfMatches\<close> reads them as a match, a negative edge (which stops the
  rule's timer) and no match.
\<close>

type_synonym trigger_result = "bool option"

abbreviation MATCH :: trigger_result where "MATCH \<equiv> Some True"
abbreviation NEGATIVE_EDGE :: trigger_result where "NEGATIVE_EDGE \<equiv> Some False"
abbreviation NO_MATCH :: trigger_result where "NO_MATCH \<equiv> None"

text \<open>
  The three state-like cases of the switch have the same body, up to the default attribute
  and the field that holds the accepted values.
\<close>

definition check_state_trigger ::
  "string \<Rightarrow> val one_or_many option \<Rightarrow> jsobj \<Rightarrow> jsobj \<Rightarrow> jsobj \<Rightarrow> trigger_result" where
  "check_state_trigger attribute accepted update from to =
     (if \<not> hasOwnProperty update attribute \<or> \<not> hasOwnProperty from attribute
         \<or> \<not> hasOwnProperty to attribute then None
      else if strict_eq (from attribute) (to attribute) then None
      else Some (array_includes (toArrayU accepted) (update attribute)))"

text \<open>
  One threshold block of the numeric case: \<open>lost\<close> is the test on \<^verbatim>\<open>to\<close> that returns
  \<^verbatim>\<open>false\<close>, \<open>held\<close> the test on \<^verbatim>\<open>from\<close> that returns \<^verbatim>\<open>null\<close>, and \<open>rest\<close>
  what the code after the block returns.
\<close>

definition check_threshold ::
  "jsnum option \<Rightarrow> (jsnum \<Rightarrow> bool) \<Rightarrow> (jsnum \<Rightarrow> bool) \<Rightarrow> trigger_result \<Rightarrow> trigger_result" where
  "check_threshold bound lost held rest =
     (case bound of
        None \<Rightarrow> rest
      | Some b \<Rightarrow> if lost b then Some False else if held b then None else rest)"

definition check_numeric_trigger ::
  "(string \<Rightarrow> jsnum) \<Rightarrow> trigger \<Rightarrow> jsobj \<Rightarrow> jsobj \<Rightarrow> jsobj \<Rightarrow> trigger_result" where
  "check_numeric_trigger tn trigger update from to =
     (let attribute = property_key (t_attribute trigger) in
      if \<not> hasOwnProperty update attribute \<or> \<not> hasOwnProperty from attribute
         \<or> \<not> hasOwnProperty to attribute then None
      else if strict_eq (from attribute) (to attribute) then None
      else
        check_threshold (t_above trigger)
          (\<lambda>bound. js_lt tn (to attribute) bound)
          (\<lambda>bound. js_ge tn (from attribute) bound)
          (check_threshold (t_below trigger)
             (\<lambda>bound. js_gt tn (to attribute) bound)
             (\<lambda>bound. js_le tn (from attribute) bound)
             (Some True)))"

definition checkTrigger ::
  "(string \<Rightarrow> jsnum) \<Rightarrow> trigger \<Rightarrow> jsobj \<Rightarrow> jsobj \<Rightarrow> jsobj \<Rightarrow> trigger_result" where
  "checkTrigger tn configTrigger update from to =
     (if t_platform configTrigger = ACTION then
        (if \<not> hasOwnProperty update ''action'' then None
         else Some (array_includes (toArrayU (t_action configTrigger)) (update ''action'')))
      else if t_platform configTrigger = STATE then
        check_state_trigger (or_default (t_attribute configTrigger) ''state'')
          (t_state configTrigger) update from to
      else if t_platform configTrigger = STATE_L1 then
        check_state_trigger (or_default (t_attribute configTrigger) ''state_l1'')
          (t_state_l1 configTrigger) update from to
      else if t_platform configTrigger = STATE_L2 then
        check_state_trigger (or_default (t_attribute configTrigger) ''state_l2'')
          (t_state_l2 configTrigger) update from to
      else if t_platform configTrigger = NUMERIC_STATE then
        check_numeric_trigger tn configTrigger update from to
      else Some False)"


section \<open>The host, and what the engine does to it\<close>

text \<open>
  The host platform is outside the engine: \<^verbatim>\<open>zigbee.resolveEntity\<close>, \<^verbatim>\<open>state.get\<close>,
  the base topic of the settings, and the runtime's ToNumber. The engine acts on it by
  logging and by \<^verbatim>\<open>mqtt.onMessage\<close>; both are recorded, in order, as a list of effects.
  A publish is fire-and-forget: it does not change what \<^verbatim>\<open>state.get\<close> returns during the
  call that issued it.
\<close>

record entity =
  e_name :: string

record host =
  resolveEntity :: "string option \<Rightarrow> entity option"
  state_get :: "entity \<Rightarrow> jsobj"
  mqttBaseTopic :: string
  ToNumber :: "string \<Rightarrow> jsnum"

text \<open>
  The object given to \<^verbatim>\<open>stringify\<close> before it is published: the verbatim data of a
  custom action, or \<^verbatim>\<open>{state: newState}\<close>.
\<close>

datatype payload = CustomData "json option" | StateData "val option"

datatype logmsg =
    UnknownTriggerPlatform string
  | TriggerEntityNotSpecified
  | UnknownService string
  | ConditionEntityNotSpecified
  | UnknownConditionPlatform string
  | ConditionNotFound "string option"
  | DestinationNotFound "string option"
  | RunAutomation action
  | StartTimeout trigger
  | StartAutomation automation
  | PluginLoaded
  | RegisteredAutomations

datatype effect = Debug logmsg | Warning logmsg | Info logmsg | Publish string payload

section \<open>The condition evaluator\<close>

definition checkCondition :: "host \<Rightarrow> condition \<Rightarrow> bool \<times> effect list" where
  "checkCondition h condition =
     (case resolveEntity h (c_entity condition) of
        None \<Rightarrow> (True, [Debug (ConditionNotFound (c_entity condition))])
      | Some entity \<Rightarrow>
          (if c_platform condition = STATE then
             (let attribute = or_default (c_attribute condition) ''state'';
                  currentState = state_get h entity attribute
              in if \<not> strict_eq currentState (c_state condition) then False else True)
           else if c_platform condition = STATE_L1 then
             (let attribute = or_default (c_attribute condition) ''state_l1'';
                  currentState = state_get h entity attribute
              in if \<not> strict_eq currentState (c_state condition) then False else True)
           else if c_platform condition = STATE_L2 then
             (let attribute = or_default (c_attribute condition) ''state_l2'';
                  currentState = state_get h entity attribute
              in if \<not> strict_eq currentState (c_state condition) then False else True)
           else if c_platform condition = NUMERIC_STATE then
             (let attribute = property_key (c_attribute condition);
                  currentState = state_get h entity attribute
              in if (case c_above condition of None \<Rightarrow> False
                     | Some bound \<Rightarrow> js_lt (ToNumber h) currentState bound) then False
                 else if (case c_below condition of None \<Rightarrow> False
                     | Some bound \<Rightarrow> js_gt (ToNumber h) currentState bound) then False
                 else True)
           else True, []))"

section \<open>The action runner\<close>

text \<open>The body of the loop of \<^verbatim>\<open>runActions\<close>, for one action.\<close>

definition newState :: "string \<Rightarrow> val option \<Rightarrow> val option" where
  "newState service currentState =
     (if service = TURN_ON then Some ON
      else if service = TURN_OFF then Some OFF
      else if service = TOGGLE then
        (if strict_eq currentState (Some ON) then Some OFF else Some ON)
      else None)"

definition runAction :: "host \<Rightarrow> action \<Rightarrow> effect list" where
  "runAction h action =
     (case resolveEntity h (a_entity action) of
        None \<Rightarrow> [Debug (DestinationNotFound (a_entity action))]
      | Some destination \<Rightarrow>
          (let currentState = state_get h destination ''state'';
               new = newState (a_service action) currentState;
               topic = mqttBaseTopic h @ ''/'' @ e_name destination @ ''/set''
           in if a_service action = CUSTOM then
                [Debug (RunAutomation action), Publish topic (CustomData (a_data action))]
              else if strict_eq currentState new then []
              else [Debug (RunAutomation action), Publish topic (StateData new)]))"

fun runActions :: "host \<Rightarrow> action list \<Rightarrow> effect list" where
  "runActions h [] = []"
| "runActions h (action # actions) = runAction h action @ runActions h actions"

fun runActionsWithConditions :: "host \<Rightarrow> condition list \<Rightarrow> action list \<Rightarrow> effect list" where
  "runActionsWithConditions h [] actions = runActions h actions"
| "runActionsWithConditions h (condition # conditions) actions =
     (case checkCondition h condition of
        (ok, out) \<Rightarrow> if \<not> ok then out else out @ runActionsWithConditions h conditions actions)"


section \<open>The rule store\<close>

text \<open>
  \<^verbatim>\<open>parseConfig\<close> collects the rules in an object literal \<^verbatim>\<open>{}\<close> used as a dictionary
  from entity name to rule array. Reading \<^verbatim>\<open>result[entityId]\<close> finds the object's own
  property if there is one, and otherwise a property inherited from \<^verbatim>\<open>Object.prototype\<close>:
  a function or an object, truthy, with no \<^verbatim>\<open>push\<close> method and not iterable.
\<close>

type_synonym automations = "string \<rightharpoonup> automation list"

definition object_prototype_keys :: "string list" where
  "object_prototype_keys =
     [''constructor'', ''__defineGetter__'', ''__defineSetter__'', ''hasOwnProperty'',
      ''__lookupGetter__'', ''__lookupSetter__'', ''isPrototypeOf'', ''propertyIsEnumerable'',
      ''toString'', ''valueOf'', ''__proto__'', ''toLocaleString'']"

datatype 'a property = Undefined | Inherited | Own 'a

definition get_prop :: "(string \<rightharpoonup> 'a) \<Rightarrow> string \<Rightarrow> 'a property" where
  "get_prop obj k =
     (case obj k of
        Some v \<Rightarrow> Own v
      | None \<Rightarrow> if array_includes object_prototype_keys k then Inherited else Undefined)"

datatype error = TypeError

text \<open>
  \<^verbatim>\<open>crypto.randomUUID()\<close> is the runtime's: \<open>randomUUID n\<close> is what its call number
  \<open>n\<close> returns, and the number of calls made so far is threaded through the loops.
\<close>

record parsed =
  p_result :: automations
  p_calls :: nat
  p_log :: "effect list"

text \<open>
  The loop over the trigger's entities. Calling \<^verbatim>\<open>push\<close> on an inherited property
  throws \<^verbatim>\<open>TypeError: result[entityId].push is not a function\<close>.
\<close>

fun push_entities ::
  "(nat \<Rightarrow> string) \<Rightarrow> trigger \<Rightarrow> action list \<Rightarrow> condition list \<Rightarrow> string list
     \<Rightarrow> automations \<times> nat \<Rightarrow> error + automations \<times> nat" where
  "push_entities randomUUID trigger actions conditions [] (result, n) = Inr (result, n)"
| "push_entities randomUUID trigger actions conditions (entityId # entities) (result, n) =
     (let rule = \<lparr>r_id = randomUUID n, r_trigger = trigger, r_action = actions,
                   r_condition = conditions\<rparr>
      in case get_prop result entityId of
           Undefined \<Rightarrow>
             push_entities randomUUID trigger actions conditions entities
               (result(entityId \<mapsto> [] @ [rule]), Suc n)
         | Own rules \<Rightarrow>
             push_entities randomUUID trigger actions conditions entities
               (result(entityId \<mapsto> rules @ [rule]), Suc n)
         | Inherited \<Rightarrow> Inl TypeError)"

text \<open>The two validation loops: the warning of the first offending item, if any.\<close>

fun check_actions :: "action list \<Rightarrow> logmsg option" where
  "check_actions [] = None"
| "check_actions (action # actions) =
     (if \<not> array_includes services (a_service action) then Some (UnknownService (a_service action))
      else check_actions actions)"

fun check_conditions :: "condition list \<Rightarrow> logmsg option" where
  "check_conditions [] = None"
| "check_conditions (condition # conditions) =
     (if \<not> truthy_str (c_entity condition) then Some ConditionEntityNotSpecified
      else if \<not> array_includes platforms (c_platform condition)
        then Some (UnknownConditionPlatform (c_platform condition))
      else check_conditions conditions)"

definition warning :: "parsed \<Rightarrow> logmsg \<Rightarrow> parsed" where
  "warning p msg = p\<lparr>p_log := p_log p @ [Warning msg]\<rparr>"

text \<open>
  The callback of the \<^verbatim>\<open>reduce\<close>, for one raw entry. The entity list is read after the
  test that \<^verbatim>\<open>trigger.entity\<close> is truthy, hence present.
\<close>

definition parse_automation ::
  "(nat \<Rightarrow> string) \<Rightarrow> config_automation \<Rightarrow> parsed \<Rightarrow> error + parsed" where
  "parse_automation randomUUID automation p =
     (let platform = t_platform (cfg_trigger automation) in
      if \<not> array_includes platforms platform then
        Inr (warning p (UnknownTriggerPlatform platform))
      else if \<not> truthy_entity (t_entity (cfg_trigger automation)) then
        Inr (warning p TriggerEntityNotSpecified)
      else
        (let actions = toArray (cfg_action automation) in
         case check_actions actions of
           Some msg \<Rightarrow> Inr (warning p msg)
         | None \<Rightarrow>
             (let conditions =
                    (case cfg_condition automation of None \<Rightarrow> [] | Some c \<Rightarrow> toArray c)
              in case check_conditions conditions of
                   Some msg \<Rightarrow> Inr (warning p msg)
                 | None \<Rightarrow>
                     (let entities =
                            (case t_entity (cfg_trigger automation) of
                               None \<Rightarrow> [] | Some e \<Rightarrow> toArray e)
                      in case push_entities randomUUID (cfg_trigger automation) actions
                                conditions entities (p_result p, p_calls p) of
                           Inl e \<Rightarrow> Inl e
                         | Inr (result, n) \<Rightarrow> Inr (p\<lparr>p_result := result, p_calls := n\<rparr>)))))"

fun parse_automations ::
  "(nat \<Rightarrow> string) \<Rightarrow> config_automation list \<Rightarrow> parsed \<Rightarrow> error + parsed" where
  "parse_automations randomUUID [] p = Inr p"
| "parse_automations randomUUID (automation # rest) p =
     (case parse_automation randomUUID automation p of
        Inl e \<Rightarrow> Inl e
      | Inr p' \<Rightarrow> parse_automations randomUUID rest p')"

text \<open>
  The configuration is the mapping itself, given here by its values in the order of
  \<^verbatim>\<open>Object.values\<close>, or the path of a file that the host's loader reads
  (\<^verbatim>\<open>readIfExists(...) || {}\<close>).
\<close>

datatype config = Mapping "config_automation list" | Path string

definition parseConfig ::
  "(nat \<Rightarrow> string) \<Rightarrow> (string \<Rightarrow> config_automation list option) \<Rightarrow> config
     \<Rightarrow> error + parsed" where
  "parseConfig randomUUID readIfExists automations =
     parse_automations randomUUID
       (case automations of
          Path path \<Rightarrow> (case readIfExists path of None \<Rightarrow> [] | Some m \<Rightarrow> m)
        | Mapping m \<Rightarrow> m)
       \<lparr>p_result = Map.empty, p_calls = 0, p_log = []\<rparr>"


section \<open>The scheduler and the engine\<close>

text \<open>
  The engine's own state is \<^verbatim>\<open>this.automations\<close> and \<^verbatim>\<open>this.timeouts\<close>, the dictionary
  from rule id to the timer object that \<^verbatim>\<open>setTimeout\<close> returned. The runtime's side of a
  timer is modelled beside it: \<open>timers\<close> holds the timers that are set and neither fired
  nor cleared, each with the rule its callback closes over and the delay it was given
  (the trigger's \<^verbatim>\<open>for\<close>, in seconds);
  \<open>next_timer\<close> numbers the timer objects, a new one for each \<^verbatim>\<open>setTimeout\<close>. Time itself
  is not modelled: a timer that is set may fire at any later step. \<open>listening\<close> says
  whether the engine's callback is registered with the event bus.
\<close>

record engine =
  automations :: automations
  timeouts :: "string \<rightharpoonup> nat"
  timers :: "nat \<rightharpoonup> automation \<times> jsnum option"
  next_timer :: nat
  listening :: bool

definition stopTimeout :: "string \<Rightarrow> engine \<Rightarrow> engine" where
  "stopTimeout automationId s =
     (case timeouts s automationId of
        None \<Rightarrow> s
      | Some timeout \<Rightarrow>
          s\<lparr>timers := (timers s)(timeout := None),
            timeouts := (timeouts s)(automationId := None)\<rparr>)"

definition startTimeout ::
  "automation \<Rightarrow> jsnum option \<Rightarrow> engine \<Rightarrow> engine \<times> effect list" where
  "startTimeout automation time s =
     (let timeout = next_timer s
      in (s\<lparr>timers := (timers s)(timeout \<mapsto> (automation, time)),
            next_timer := Suc timeout,
            timeouts := (timeouts s)(r_id automation \<mapsto> timeout)\<rparr>,
          [Debug (StartTimeout (r_trigger automation))]))"

text \<open>The callback given to \<^verbatim>\<open>setTimeout\<close> by \<^verbatim>\<open>startTimeout\<close>.\<close>

definition timeout_callback :: "host \<Rightarrow> automation \<Rightarrow> engine \<Rightarrow> engine \<times> effect list" where
  "timeout_callback h automation s =
     (s\<lparr>timeouts := (timeouts s)(r_id automation := None)\<rparr>,
      runActionsWithConditions h (r_condition automation) (r_action automation))"

text \<open>The runtime fires a timer that is set: it leaves the runtime's list and its callback runs.\<close>

definition fire_timer :: "host \<Rightarrow> nat \<Rightarrow> engine \<Rightarrow> engine \<times> effect list" where
  "fire_timer h timeout s =
     (case timers s timeout of
        None \<Rightarrow> (s, [])
      | Some (automation, time) \<Rightarrow>
          timeout_callback h automation (s\<lparr>timers := (timers s)(timeout := None)\<rparr>))"

definition runAutomationIfMatches ::
  "host \<Rightarrow> automation \<Rightarrow> jsobj \<Rightarrow> jsobj \<Rightarrow> jsobj \<Rightarrow> engine \<Rightarrow> engine \<times> effect list" where
  "runAutomationIfMatches h automation update from to s =
     (let triggerResult = checkTrigger (ToNumber h) (r_trigger automation) update from to in
      if triggerResult = Some False then (stopTimeout (r_id automation) s, [])
      else if triggerResult = None then (s, [])
      else if timeouts s (r_id automation) \<noteq> None then
        (s, [Debug (StartAutomation automation)])
      else if truthy_num (t_for (r_trigger automation)) then
        (case startTimeout automation (t_for (r_trigger automation)) s of
           (s', out) \<Rightarrow> (s', Debug (StartAutomation automation) # out))
      else
        (s, Debug (StartAutomation automation)
              # runActionsWithConditions h (r_condition automation) (r_action automation)))"

text \<open>The loop of \<^verbatim>\<open>findAndRun\<close> over the rules of one entity, in their order.\<close>

fun run_automations ::
  "host \<Rightarrow> automation list \<Rightarrow> jsobj \<Rightarrow> jsobj \<Rightarrow> jsobj \<Rightarrow> engine \<Rightarrow> engine \<times> effect list" where
  "run_automations h [] update from to s = (s, [])"
| "run_automations h (automation # rest) update from to s =
     (case runAutomationIfMatches h automation update from to s of
        (s', out) \<Rightarrow>
          (case run_automations h rest update from to s' of
             (s'', out') \<Rightarrow> (s'', out @ out')))"

text \<open>
  \<^verbatim>\<open>this.automations[entityId]\<close> is read like \<^verbatim>\<open>result[entityId]\<close> above; an inherited
  property is truthy and \<^verbatim>\<open>for ... of\<close> over it throws a TypeError.
\<close>

definition findAndRun ::
  "host \<Rightarrow> string \<Rightarrow> jsobj \<Rightarrow> jsobj \<Rightarrow> jsobj \<Rightarrow> engine \<Rightarrow> error + engine \<times> effect list" where
  "findAndRun h entityId update from to s =
     (case get_prop (automations s) entityId of
        Undefined \<Rightarrow> Inr (s, [])
      | Inherited \<Rightarrow> Inl TypeError
      | Own rules \<Rightarrow> Inr (run_automations h rules update from to s))"

text \<open>
  The constructor, and \<^verbatim>\<open>start\<close> and \<^verbatim>\<open>stop\<close>, which register the state-change
  callback with the event bus and remove it.
\<close>

definition constructor ::
  "(nat \<Rightarrow> string) \<Rightarrow> (string \<Rightarrow> config_automation list option) \<Rightarrow> config
     \<Rightarrow> error + engine \<times> effect list" where
  "constructor randomUUID readIfExists config =
     (case parseConfig randomUUID readIfExists config of
        Inl e \<Rightarrow> Inl e
      | Inr p \<Rightarrow>
          Inr (\<lparr>automations = p_result p, timeouts = Map.empty, timers = Map.empty,
                next_timer = 0, listening = False\<rparr>,
               p_log p @ [Info PluginLoaded, Debug RegisteredAutomations]))"

definition start :: "engine \<Rightarrow> engine" where
  "start s = s\<lparr>listening := True\<rparr>"

definition stop :: "engine \<Rightarrow> engine" where
  "stop s = s\<lparr>listening := False\<rparr>"

text \<open>
  What can happen to a constructed engine: the host starts or stops it, the event bus
  reports a state change (delivered only while the callback is registered), or the runtime
  fires a timer.
\<close>

datatype event =
    Start
  | Stop
  | StateChange string jsobj jsobj jsobj
  | TimerFires nat

fun step :: "host \<Rightarrow> event \<Rightarrow> engine \<Rightarrow> error + engine \<times> effect list" where
  "step h Start s = Inr (start s, [])"
| "step h Stop s = Inr (stop s, [])"
| "step h (StateChange entityId update from to) s =
     (if listening s then findAndRun h entityId update from to s else Inr (s, []))"
| "step h (TimerFires timeout) s = Inr (fire_timer h timeout s)"

text \<open>
  The engine states that can arise: the constructed one, and every state after a step that
  did not throw, whatever the host's state at that step.
\<close>

inductive reachable :: "engine \<Rightarrow> bool" where
  constructed: "constructor randomUUID readIfExists config = Inr (s, out) \<Longrightarrow> reachable s"
| stepped: "reachable s \<Longrightarrow> step h ev s = Inr (s', out) \<Longrightarrow> reachable s'"


section \<open>The earlier variant of the engine\<close>

text \<open>
  \<^verbatim>\<open>src/automations-extension.ts\<close> is an earlier variant of the same engine, with the
  platforms \<^verbatim>\<open>action\<close>, \<^verbatim>\<open>state\<close> and \<^verbatim>\<open>numeric_state\<close>, the services \<^verbatim>\<open>toggle\<close>,
  \<^verbatim>\<open>turn_on\<close> and \<^verbatim>\<open>turn_off\<close>, and neither conditions nor timers: a rule is a trigger
  and its actions, and a trigger that matches runs the actions at once. Its functions carry
  the suffix \<open>_ts\<close> here.
\<close>

definition platforms_ts :: "string list" where
  "platforms_ts = [ACTION, STATE, NUMERIC_STATE]"

definition services_ts :: "string list" where
  "services_ts = [TOGGLE, TURN_ON, TURN_OFF]"

record automation_ts =
  ts_trigger :: trigger
  ts_action :: "action list"

type_synonym automations_ts = "string \<rightharpoonup> automation_ts list"

fun push_entities_ts ::
  "trigger \<Rightarrow> action list \<Rightarrow> string list \<Rightarrow> automations_ts \<Rightarrow> error + automations_ts" where
  "push_entities_ts trigger actions [] result = Inr result"
| "push_entities_ts trigger actions (entityId # entities) result =
     (let rule = \<lparr>ts_trigger = trigger, ts_action = actions\<rparr>
      in case get_prop result entityId of
           Undefined \<Rightarrow>
             push_entities_ts trigger actions entities (result(entityId \<mapsto> [] @ [rule]))
         | Own rules \<Rightarrow>
             push_entities_ts trigger actions entities (result(entityId \<mapsto> rules @ [rule]))
         | Inherited \<Rightarrow> Inl TypeError)"

definition parse_automation_ts ::
  "config_automation \<Rightarrow> automations_ts \<Rightarrow> error + automations_ts" where
  "parse_automation_ts automation result =
     (let platform = t_platform (cfg_trigger automation) in
      if \<not> array_includes platforms_ts platform then Inr result
      else if \<not> truthy_entity (t_entity (cfg_trigger automation)) then Inr result
      else
        (let actions = toArray (cfg_action automation) in
         if \<exists>action \<in> set actions. \<not> array_includes services_ts (a_service action)
         then Inr result
         else
           (let entities =
                  (case t_entity (cfg_trigger automation) of None \<Rightarrow> [] | Some e \<Rightarrow> toArray e)
            in push_entities_ts (cfg_trigger automation) actions entities result)))"

fun parse_automations_ts ::
  "config_automation list \<Rightarrow> automations_ts \<Rightarrow> error + automations_ts" where
  "parse_automations_ts [] result = Inr result"
| "parse_automations_ts (automation # rest) result =
     (case parse_automation_ts automation result of
        Inl e \<Rightarrow> Inl e
      | Inr result' \<Rightarrow> parse_automations_ts rest result')"

definition parseConfig_ts :: "config_automation list \<Rightarrow> error + automations_ts" where
  "parseConfig_ts config = parse_automations_ts config Map.empty"

definition runAction_ts :: "host \<Rightarrow> action \<Rightarrow> effect list" where
  "runAction_ts h action =
     (case resolveEntity h (a_entity action) of
        None \<Rightarrow> [Debug (DestinationNotFound (a_entity action))]
      | Some destination \<Rightarrow>
          (let currentState = state_get h destination ''state'';
               new = (if a_service action = TURN_ON then Some ON
                      else if a_service action = TURN_OFF then Some OFF
                      else if a_service action = TOGGLE then
                        (if strict_eq currentState (Some ON) then Some OFF else Some ON)
                      else None)
           in if strict_eq currentState new then []
              else [Debug (RunAutomation action),
                    Publish (mqttBaseTopic h @ ''/'' @ e_name destination @ ''/set'')
                      (StateData new)]))"

fun runActions_ts :: "host \<Rightarrow> action list \<Rightarrow> effect list" where
  "runActions_ts h [] = []"
| "runActions_ts h (action # actions) = runAction_ts h action @ runActions_ts h actions"

definition runAutomationIfMatches_ts ::
  "host \<Rightarrow> automation_ts \<Rightarrow> jsobj \<Rightarrow> jsobj \<Rightarrow> jsobj \<Rightarrow> effect list" where
  "runAutomationIfMatches_ts h automation update from to =
     (let platform = t_platform (ts_trigger automation) in
      if platform = ACTION then
        (if \<not> hasOwnProperty update ''action'' then []
         else if \<not> array_includes (toArrayU (t_action (ts_trigger automation)))
                    (update ''action'') then []
         else runActions_ts h (ts_action automation))
      else if platform = STATE then
        (if \<not> hasOwnProperty update ''state'' \<or> \<not> hasOwnProperty from ''state''
            \<or> \<not> hasOwnProperty to ''state'' then []
         else if strict_eq (from ''state'') (to ''state'') then []
         else if \<not> array_includes (toArrayU (t_state (ts_trigger automation)))
                    (update ''state'') then []
         else runActions_ts h (ts_action automation))
      else if platform = NUMERIC_STATE then
        (let attribute = property_key (t_attribute (ts_trigger automation)) in
         if \<not> hasOwnProperty update attribute \<or> \<not> hasOwnProperty from attribute
            \<or> \<not> hasOwnProperty to attribute then []
         else if strict_eq (from attribute) (to attribute) then []
         else if (case t_above (ts_trigger automation) of
                    None \<Rightarrow> False
                  | Some bound \<Rightarrow> js_ge (ToNumber h) (from attribute) bound
                                \<or> js_lt (ToNumber h) (to attribute) bound) then []
         else if (case t_below (ts_trigger automation) of
                    None \<Rightarrow> False
                  | Some bound \<Rightarrow> js_le (ToNumber h) (from attribute) bound
                                \<or> js_gt (ToNumber h) (to attribute) bound) then []
         else runActions_ts h (ts_action automation))
      else [])"

section \<open>Notions used to state the properties\<close>

text \<open>The publish calls among the effects, in order.\<close>

fun published :: "effect list \<Rightarrow> (string \<times> payload) list" where
  "published [] = []"
| "published (Publish topic data # es) = (topic, data) # published es"
| "published (e # es) = published es"

text \<open>A condition is satisfied when \<^verbatim>\<open>checkCondition\<close> returns true; what it logs.\<close>

definition satisfied :: "host \<Rightarrow> condition \<Rightarrow> bool" where
  "satisfied h c = fst (checkCondition h c)"

definition condition_log :: "host \<Rightarrow> condition list \<Rightarrow> effect list" where
  "condition_log h cs = concat (map (\<lambda>c. snd (checkCondition h c)) cs)"

text \<open>
  A raw entry passes the validation of \<^verbatim>\<open>parseConfig\<close>; the entities its trigger names;
  the rules stored for an entity.
\<close>

definition accepted :: "config_automation \<Rightarrow> bool" where
  "accepted automation =
     (array_includes platforms (t_platform (cfg_trigger automation))
      \<and> truthy_entity (t_entity (cfg_trigger automation))
      \<and> check_actions (toArray (cfg_action automation)) = None
      \<and> check_conditions
           (case cfg_condition automation of None \<Rightarrow> [] | Some c \<Rightarrow> toArray c) = None)"

definition entities_of :: "config_automation \<Rightarrow> string list" where
  "entities_of automation =
     (case t_entity (cfg_trigger automation) of None \<Rightarrow> [] | Some e \<Rightarrow> toArray e)"

definition replica :: "config_automation \<Rightarrow> string \<Rightarrow> automation" where
  "replica automation ident =
     \<lparr>r_id = ident, r_trigger = cfg_trigger automation,
      r_action = toArray (cfg_action automation),
      r_condition = (case cfg_condition automation of None \<Rightarrow> [] | Some c \<Rightarrow> toArray c)\<rparr>"

definition rules_for :: "automations \<Rightarrow> string \<Rightarrow> automation list" where
  "rules_for result entityId = (case result entityId of None \<Rightarrow> [] | Some rules \<Rightarrow> rules)"

definition rule_ids :: "error + parsed \<Rightarrow> string \<Rightarrow> string list" where
  "rule_ids r entityId =
     (case r of Inl e \<Rightarrow> [] | Inr p \<Rightarrow> map r_id (rules_for (p_result p) entityId))"

text \<open>
  The timer bookkeeping is consistent: every entry of \<^verbatim>\<open>this.timeouts\<close> is a timer that is
  set and whose callback belongs to that rule id, every timer that is set is the entry of its
  rule id, and timer objects are never reused.
\<close>

definition timer_inv :: "engine \<Rightarrow> bool" where
  "timer_inv s =
     ((\<forall>ident timeout. timeouts s ident = Some timeout \<longrightarrow>
          (\<exists>automation time. timers s timeout = Some (automation, time)
              \<and> r_id automation = ident))
      \<and> (\<forall>timeout automation time. timers s timeout = Some (automation, time) \<longrightarrow>
            timeouts s (r_id automation) = Some timeout)
      \<and> (\<forall>timeout automation time. timers s timeout = Some (automation, time) \<longrightarrow>
            timeout < next_timer s))"

text \<open>A run: the constructor, then a sequence of events, with the effects of all of them.\<close>

fun run :: "host \<Rightarrow> event list \<Rightarrow> engine \<times> effect list \<Rightarrow> error + engine \<times> effect list" where
  "run h [] (s, out) = Inr (s, out)"
| "run h (ev # evs) (s, out) =
     (case step h ev s of
        Inl e \<Rightarrow> Inl e
      | Inr (s', out') \<Rightarrow> run h evs (s', out @ out'))"

definition run_config ::
  "host \<Rightarrow> (nat \<Rightarrow> string) \<Rightarrow> config \<Rightarrow> event list \<Rightarrow> error + engine \<times> effect list" where
  "run_config h randomUUID config evs =
     (case constructor randomUUID (\<lambda>path. None) config of
        Inl e \<Rightarrow> Inl e
      | Inr (s, out) \<Rightarrow> run h evs (s, out))"

definition published_by :: "error + engine \<times> effect list \<Rightarrow> (string \<times> payload) list" where
  "published_by r = (case r of Inl e \<Rightarrow> [] | Inr (s, out) \<Rightarrow> published out)"

section \<open>Example inputs\<close>

text \<open>
  The strings of the examples (\<^verbatim>\<open>ON\<close>, \<^verbatim>\<open>OFF\<close>, action names) are not numerals: ToNumber
  gives NaN for them.
\<close>

definition example_ToNumber :: "string \<Rightarrow> jsnum" where
  "example_ToNumber s = NaN"

definition example_uuid :: "nat \<Rightarrow> string" where
  "example_uuid n = ''uuid-'' @ replicate n CHR ''i''"

definition snapshot :: "string \<Rightarrow> val \<Rightarrow> jsobj" where
  "snapshot k v = [k \<mapsto> v]"

text \<open>A host that knows the entity \<^verbatim>\<open>Y\<close> only, whose state is the given value.\<close>

definition example_host :: "val \<Rightarrow> host" where
  "example_host v =
     \<lparr>resolveEntity = (\<lambda>k. if k = Some ''Y'' then Some \<lparr>e_name = ''Y''\<rparr> else None),
      state_get = (\<lambda>e. snapshot ''state'' v),
      mqttBaseTopic = ''zigbee2mqtt'',
      ToNumber = example_ToNumber\<rparr>"

text \<open>\<^verbatim>\<open>{platform: state, entity: X, state: [ON], for: 10}\<close>\<close>

definition example_trigger :: trigger where
  "example_trigger =
     \<lparr>t_platform = ''state'', t_entity = Some (One ''X''), t_action = None,
      t_state = Some (Many [Str ''ON'']), t_state_l1 = None, t_state_l2 = None,
      t_attribute = None, t_above = None, t_below = None, t_for = Some (Fin 10)\<rparr>"

text \<open>\<^verbatim>\<open>{platform: action, entity: X, action: single, for: 10}\<close>\<close>

definition example_action_trigger :: trigger where
  "example_action_trigger =
     \<lparr>t_platform = ''action'', t_entity = Some (One ''X''), t_action = Some (One (Str ''single'')),
      t_state = None, t_state_l1 = None, t_state_l2 = None,
      t_attribute = None, t_above = None, t_below = None, t_for = Some (Fin 10)\<rparr>"

text \<open>
  \<^verbatim>\<open>{platform: numeric_state, entity: X, attribute: temperature, above: 30}\<close>, the same
  with \<^verbatim>\<open>for: 10\<close>, and the same with \<^verbatim>\<open>below: 30\<close> in place of \<^verbatim>\<open>above\<close>
\<close>

definition example_above_trigger :: trigger where
  "example_above_trigger =
     \<lparr>t_platform = ''numeric_state'', t_entity = Some (One ''X''), t_action = None,
      t_state = None, t_state_l1 = None, t_state_l2 = None,
      t_attribute = Some ''temperature'', t_above = Some (Fin 30), t_below = None,
      t_for = None\<rparr>"

definition example_delayed_above_trigger :: trigger where
  "example_delayed_above_trigger =
     \<lparr>t_platform = ''numeric_state'', t_entity = Some (One ''X''), t_action = None,
      t_state = None, t_state_l1 = None, t_state_l2 = None,
      t_attribute = Some ''temperature'', t_above = Some (Fin 30), t_below = None,
      t_for = Some (Fin 10)\<rparr>"

definition example_below_trigger :: trigger where
  "example_below_trigger =
     \<lparr>t_platform = ''numeric_state'', t_entity = Some (One ''X''), t_action = None,
      t_state = None, t_state_l1 = None, t_state_l2 = None,
      t_attribute = Some ''temperature'', t_above = None, t_below = Some (Fin 30),
      t_for = None\<rparr>"

text \<open>\<^verbatim>\<open>{entity: Y, service: turn_on}\<close>\<close>

definition example_action :: action where
  "example_action = \<lparr>a_entity = Some ''Y'', a_service = ''turn_on'', a_data = None\<rparr>"

text \<open>Conditions on \<^verbatim>\<open>Y\<close> and on an entity the host does not know.\<close>

definition example_condition :: "string \<Rightarrow> val \<Rightarrow> condition" where
  "example_condition e v =
     \<lparr>c_platform = ''state'', c_entity = Some e, c_attribute = None, c_state = Some v,
      c_above = None, c_below = None\<rparr>"

text \<open>Raw entries: one with the given trigger entities, one with an unknown service.\<close>

definition example_entry :: "string one_or_many \<Rightarrow> config_automation" where
  "example_entry e =
     \<lparr>cfg_trigger = example_trigger\<lparr>t_entity := Some e\<rparr>, cfg_action = One example_action,
      cfg_condition = None\<rparr>"

definition example_bad_entry :: config_automation where
  "example_bad_entry =
     \<lparr>cfg_trigger = example_trigger,
      cfg_action = Many [example_action, example_action\<lparr>a_service := ''dim''\<rparr>],
      cfg_condition = None\<rparr>"

text \<open>A rule with the given trigger, and the engine in which its timer is pending.\<close>

definition example_rule :: "trigger \<Rightarrow> automation" where
  "example_rule t =
     \<lparr>r_id = example_uuid 0, r_trigger = t, r_action = [example_action], r_condition = []\<rparr>"

definition example_pending :: "trigger \<Rightarrow> engine" where
  "example_pending t =
     \<lparr>automations = [''X'' \<mapsto> [example_rule t]],
      timeouts = [example_uuid 0 \<mapsto> 0],
      timers = [0 \<mapsto> (example_rule t, t_for t)],
      next_timer = Suc 0,
      listening = True\<rparr>"


section \<open>Facts about the names and the examples\<close>

lemmas name_defs = ACTION_def STATE_def STATE_L1_def STATE_L2_def NUMERIC_STATE_def
  TOGGLE_def TURN_ON_def TURN_OFF_def CUSTOM_def platforms_def services_def ON_def OFF_def

lemmas example_defs = example_ToNumber_def example_uuid_def snapshot_def example_host_def
  example_trigger_def example_action_trigger_def example_above_trigger_def
  example_delayed_above_trigger_def example_below_trigger_def example_action_def example_condition_def example_entry_def
  example_bad_entry_def example_rule_def example_pending_def

lemmas engine_defs = run_config_def constructor_def parseConfig_def parse_automation_def
  get_prop_def object_prototype_keys_def array_includes_def findAndRun_def
  runAutomationIfMatches_def checkTrigger_def check_state_trigger_def hasOwnProperty_def
  startTimeout_def stopTimeout_def fire_timer_def timeout_callback_def start_def stop_def
  runAction_def newState_def checkCondition_def published_by_def warning_def
  check_numeric_trigger_def check_threshold_def js_lt_def js_gt_def js_le_def js_ge_def

lemma platform_names_distinct:
  "ACTION \<noteq> STATE" "ACTION \<noteq> STATE_L1" "ACTION \<noteq> STATE_L2" "ACTION \<noteq> NUMERIC_STATE"
  "STATE \<noteq> STATE_L1" "STATE \<noteq> STATE_L2" "STATE \<noteq> NUMERIC_STATE"
  "STATE_L1 \<noteq> STATE_L2" "STATE_L1 \<noteq> NUMERIC_STATE" "STATE_L2 \<noteq> NUMERIC_STATE"
  by (simp_all add: name_defs)

lemma service_names_distinct:
  "TOGGLE \<noteq> CUSTOM" "TURN_ON \<noteq> CUSTOM" "TURN_OFF \<noteq> CUSTOM"
  "TURN_ON \<noteq> TURN_OFF" "TURN_ON \<noteq> TOGGLE" "TURN_OFF \<noteq> TOGGLE"
  by (simp_all add: name_defs)

section \<open>The trigger matcher\<close>

text \<open>What the caller does with each of the two results that are not a match.\<close>

lemma negative_edge_stops_timeout:
  "checkTrigger (ToNumber h) (r_trigger automation) update from to = NEGATIVE_EDGE \<Longrightarrow>
   runAutomationIfMatches h automation update from to s = (stopTimeout (r_id automation) s, [])"
  by (simp add: runAutomationIfMatches_def)

lemma no_match_ignored:
  "checkTrigger (ToNumber h) (r_trigger automation) update from to = NO_MATCH \<Longrightarrow>
   runAutomationIfMatches h automation update from to s = (s, [])"
  by (simp add: runAutomationIfMatches_def)

lemma stopTimeout_clears:
  "timeouts (stopTimeout automationId s) automationId = None"
  "timeouts s automationId = Some timeout \<Longrightarrow>
   timers (stopTimeout automationId s) timeout = None"
  by (simp_all add: stopTimeout_def split: option.splits)

lemma checkTrigger_state_like:
  assumes "(t_platform t, attribute, accepted_values) \<in>
             {(STATE, or_default (t_attribute t) ''state'', t_state t),
              (STATE_L1, or_default (t_attribute t) ''state_l1'', t_state_l1 t),
              (STATE_L2, or_default (t_attribute t) ''state_l2'', t_state_l2 t)}"
  shows "checkTrigger tn t update from to
           = check_state_trigger attribute accepted_values update from to"
  using assms platform_names_distinct
  by (auto simp add: checkTrigger_def)

text \<open>
  C3, as the code has it. For an action trigger the matcher returns MATCH when the update
  carries an \<^verbatim>\<open>action\<close> field whose value is one of the trigger's action names, NO_MATCH
  when the update carries no \<^verbatim>\<open>action\<close> field, and NEGATIVE_EDGE when it carries an
  \<^verbatim>\<open>action\<close> field with any other value; in that last case the caller stops the rule's
  pending timer.
\<close>

theorem action_trigger_result:
  assumes "t_platform (r_trigger automation) = ACTION"
  shows "checkTrigger (ToNumber h) (r_trigger automation) update from to =
           (if \<not> hasOwnProperty update ''action'' then NO_MATCH
            else if array_includes (toArrayU (t_action (r_trigger automation))) (update ''action'')
              then MATCH
            else NEGATIVE_EDGE)
       \<and> (hasOwnProperty update ''action''
            \<and> \<not> array_includes (toArrayU (t_action (r_trigger automation))) (update ''action'')
          \<longrightarrow> runAutomationIfMatches h automation update from to s
                = (stopTimeout (r_id automation) s, [])
              \<and> timeouts (stopTimeout (r_id automation) s) (r_id automation) = None)"
  using assms by (simp add: checkTrigger_def runAutomationIfMatches_def stopTimeout_clears)

theorem action_trigger_result_witness:
  "t_platform (r_trigger (example_rule example_action_trigger)) = ACTION
   \<and> hasOwnProperty (snapshot ''action'' (Str ''double'')) ''action''
   \<and> \<not> array_includes (toArrayU (t_action (r_trigger (example_rule example_action_trigger))))
         (snapshot ''action'' (Str ''double'') ''action'')
   \<and> checkTrigger (ToNumber (example_host OFF)) (r_trigger (example_rule example_action_trigger))
        (snapshot ''action'' (Str ''double'')) Map.empty Map.empty = NEGATIVE_EDGE
   \<and> checkTrigger (ToNumber (example_host OFF)) (r_trigger (example_rule example_action_trigger))
        (snapshot ''action'' (Str ''single'')) Map.empty Map.empty = MATCH
   \<and> checkTrigger (ToNumber (example_host OFF)) (r_trigger (example_rule example_action_trigger))
        (snapshot ''state'' ON) Map.empty Map.empty = NO_MATCH
   \<and> runAutomationIfMatches (example_host OFF) (example_rule example_action_trigger)
        (snapshot ''action'' (Str ''double'')) Map.empty Map.empty
        (example_pending example_action_trigger)
      = (stopTimeout (r_id (example_rule example_action_trigger))
           (example_pending example_action_trigger), [])"
proof -
  have p: "t_platform (r_trigger (example_rule example_action_trigger)) = ACTION"
    by (simp add: example_defs name_defs)
  show ?thesis
    using p
      action_trigger_result [OF p, of "example_host OFF" "snapshot ''action'' (Str ''double'')"
        Map.empty Map.empty "example_pending example_action_trigger"]
      action_trigger_result [OF p, of "example_host OFF" "snapshot ''action'' (Str ''single'')"
        Map.empty Map.empty "example_pending example_action_trigger"]
      action_trigger_result [OF p, of "example_host OFF" "snapshot ''state'' ON"
        Map.empty Map.empty "example_pending example_action_trigger"]
    by (simp add: example_defs name_defs hasOwnProperty_def array_includes_def)
qed

text \<open>
  C3 as stated fails: an update whose \<^verbatim>\<open>action\<close> is not one of the trigger's names gives
  NEGATIVE_EDGE, not NO_MATCH, and the pending timer of the rule is cleared.
\<close>

theorem action_trigger_negative_edge_counterexample:
  "checkTrigger example_ToNumber example_action_trigger
     (snapshot ''action'' (Str ''double'')) Map.empty Map.empty = NEGATIVE_EDGE
   \<and> timeouts (example_pending example_action_trigger) (example_uuid 0) = Some 0
   \<and> timeouts (fst (runAutomationIfMatches (example_host OFF)
        (example_rule example_action_trigger)
        (snapshot ''action'' (Str ''double'')) Map.empty Map.empty
        (example_pending example_action_trigger))) (example_uuid 0) = None"
  by (simp add: engine_defs name_defs example_defs)

text \<open>
  C4. For a numeric trigger with only \<^verbatim>\<open>above\<close> set, when the three snapshots carry the
  attribute and \<^verbatim>\<open>from\<close> differs from \<^verbatim>\<open>to\<close> there: NEGATIVE_EDGE if
  \<^verbatim>\<open>to[attr] < above\<close>, else NO_MATCH if \<^verbatim>\<open>from[attr] >= above\<close>, else MATCH. With only
  \<^verbatim>\<open>below\<close> set: NEGATIVE_EDGE if \<^verbatim>\<open>to[attr] > below\<close>, else NO_MATCH if
  \<^verbatim>\<open>from[attr] <= below\<close>, else MATCH. On NEGATIVE_EDGE the caller cancels the rule's
  pending delayed fire: afterwards the rule id has no entry in \<^verbatim>\<open>this.timeouts\<close> and the
  timer that was pending for it is cleared. On NO_MATCH the engine, its pending timers
  included, stays as it is and nothing is logged or published.
\<close>

theorem numeric_trigger_single_threshold:
  assumes "t_platform (r_trigger automation) = NUMERIC_STATE"
    and "attribute = property_key (t_attribute (r_trigger automation))"
    and "hasOwnProperty update attribute" and "hasOwnProperty from attribute"
    and "hasOwnProperty to attribute"
    and "\<not> strict_eq (from attribute) (to attribute)"
  shows "(t_above (r_trigger automation) = Some bound \<and> t_below (r_trigger automation) = None \<longrightarrow>
           checkTrigger (ToNumber h) (r_trigger automation) update from to =
             (if js_lt (ToNumber h) (to attribute) bound then NEGATIVE_EDGE
              else if js_ge (ToNumber h) (from attribute) bound then NO_MATCH
              else MATCH))
       \<and> (t_below (r_trigger automation) = Some bound \<and> t_above (r_trigger automation) = None \<longrightarrow>
           checkTrigger (ToNumber h) (r_trigger automation) update from to =
             (if js_gt (ToNumber h) (to attribute) bound then NEGATIVE_EDGE
              else if js_le (ToNumber h) (from attribute) bound then NO_MATCH
              else MATCH))
       \<and> (checkTrigger (ToNumber h) (r_trigger automation) update from to = NEGATIVE_EDGE \<longrightarrow>
           runAutomationIfMatches h automation update from to s
             = (stopTimeout (r_id automation) s, [])
           \<and> timeouts (fst (runAutomationIfMatches h automation update from to s))
                (r_id automation) = None
           \<and> (\<forall>timeout. timeouts s (r_id automation) = Some timeout \<longrightarrow>
                 timers (fst (runAutomationIfMatches h automation update from to s)) timeout
                   = None))
       \<and> (checkTrigger (ToNumber h) (r_trigger automation) update from to = NO_MATCH \<longrightarrow>
           runAutomationIfMatches h automation update from to s = (s, [])
           \<and> timeouts (fst (runAutomationIfMatches h automation update from to s)) = timeouts s
           \<and> timers (fst (runAutomationIfMatches h automation update from to s)) = timers s)
       \<and> ((t_above (r_trigger automation) = Some bound \<and> t_below (r_trigger automation) = None
              \<and> js_lt (ToNumber h) (to attribute) bound
            \<or> t_below (r_trigger automation) = Some bound \<and> t_above (r_trigger automation) = None
              \<and> js_gt (ToNumber h) (to attribute) bound)
           \<and> timeouts s (r_id automation) = Some pending \<longrightarrow>
           timeouts (fst (runAutomationIfMatches h automation update from to s))
             (r_id automation) = None
           \<and> timers (fst (runAutomationIfMatches h automation update from to s)) pending = None)"
proof -
  let ?result = "checkTrigger (ToNumber h) (r_trigger automation) update from to"
  let ?after = "fst (runAutomationIfMatches h automation update from to s)"
  have result: "?result =
          check_threshold (t_above (r_trigger automation))
            (\<lambda>bound. js_lt (ToNumber h) (to attribute) bound)
            (\<lambda>bound. js_ge (ToNumber h) (from attribute) bound)
            (check_threshold (t_below (r_trigger automation))
               (\<lambda>bound. js_gt (ToNumber h) (to attribute) bound)
               (\<lambda>bound. js_le (ToNumber h) (from attribute) bound)
               (Some True))"
    using assms platform_names_distinct
    by (simp add: checkTrigger_def check_numeric_trigger_def Let_def)
  have only_above: "t_above (r_trigger automation) = Some bound
        \<and> t_below (r_trigger automation) = None \<longrightarrow>
      ?result = (if js_lt (ToNumber h) (to attribute) bound then NEGATIVE_EDGE
                 else if js_ge (ToNumber h) (from attribute) bound then NO_MATCH
                 else MATCH)"
    by (simp add: result check_threshold_def)
  have only_below: "t_below (r_trigger automation) = Some bound
        \<and> t_above (r_trigger automation) = None \<longrightarrow>
      ?result = (if js_gt (ToNumber h) (to attribute) bound then NEGATIVE_EDGE
                 else if js_le (ToNumber h) (from attribute) bound then NO_MATCH
                 else MATCH)"
    by (simp add: result check_threshold_def)
  have cancelled: "runAutomationIfMatches h automation update from to s
             = (stopTimeout (r_id automation) s, [])
           \<and> timeouts ?after (r_id automation) = None
           \<and> (\<forall>timeout. timeouts s (r_id automation) = Some timeout \<longrightarrow>
                 timers ?after timeout = None)"
    if ne: "?result = NEGATIVE_EDGE"
    using negative_edge_stops_timeout [OF ne, of s] stopTimeout_clears by simp
  have ignored: "runAutomationIfMatches h automation update from to s = (s, [])
           \<and> timeouts ?after = timeouts s \<and> timers ?after = timers s"
    if nm: "?result = NO_MATCH"
    using no_match_ignored [OF nm, of s] by simp
  have left: "timeouts ?after (r_id automation) = None \<and> timers ?after pending = None"
    if region: "t_above (r_trigger automation) = Some bound \<and> t_below (r_trigger automation) = None
              \<and> js_lt (ToNumber h) (to attribute) bound
            \<or> t_below (r_trigger automation) = Some bound \<and> t_above (r_trigger automation) = None
              \<and> js_gt (ToNumber h) (to attribute) bound"
      and pending: "timeouts s (r_id automation) = Some pending"
  proof -
    from region only_above only_below have "?result = NEGATIVE_EDGE" by auto
    from cancelled [OF this] pending show ?thesis by blast
  qed
  show ?thesis
    using only_above only_below cancelled ignored left by blast
qed

theorem numeric_trigger_single_threshold_witness:
  "t_platform (r_trigger (example_rule example_above_trigger)) = NUMERIC_STATE
   \<and> hasOwnProperty (snapshot ''temperature'' (Num (Fin 35))) ''temperature''
   \<and> \<not> strict_eq (snapshot ''temperature'' (Num (Fin 25)) ''temperature'')
         (snapshot ''temperature'' (Num (Fin 35)) ''temperature'')
   \<and> checkTrigger example_ToNumber example_above_trigger
        (snapshot ''temperature'' (Num (Fin 35))) (snapshot ''temperature'' (Num (Fin 25)))
        (snapshot ''temperature'' (Num (Fin 35))) = MATCH
   \<and> checkTrigger example_ToNumber example_above_trigger
        (snapshot ''temperature'' (Num (Fin 32))) (snapshot ''temperature'' (Num (Fin 35)))
        (snapshot ''temperature'' (Num (Fin 32))) = NO_MATCH
   \<and> checkTrigger example_ToNumber example_above_trigger
        (snapshot ''temperature'' (Num (Fin 25))) (snapshot ''temperature'' (Num (Fin 35)))
        (snapshot ''temperature'' (Num (Fin 25))) = NEGATIVE_EDGE
   \<and> checkTrigger example_ToNumber example_below_trigger
        (snapshot ''temperature'' (Num (Fin 25))) (snapshot ''temperature'' (Num (Fin 35)))
        (snapshot ''temperature'' (Num (Fin 25))) = MATCH
   \<and> checkTrigger example_ToNumber example_below_trigger
        (snapshot ''temperature'' (Num (Fin 35))) (snapshot ''temperature'' (Num (Fin 25)))
        (snapshot ''temperature'' (Num (Fin 35))) = NEGATIVE_EDGE
   \<and> timeouts (example_pending example_delayed_above_trigger) (example_uuid 0) = Some 0
   \<and> timers (example_pending example_delayed_above_trigger) 0
        = Some (example_rule example_delayed_above_trigger, Some (Fin 10))
   \<and> js_lt (ToNumber (example_host OFF))
        (snapshot ''temperature'' (Num (Fin 25)) ''temperature'') (Fin 30)
   \<and> timeouts (fst (runAutomationIfMatches (example_host OFF)
        (example_rule example_delayed_above_trigger)
        (snapshot ''temperature'' (Num (Fin 25))) (snapshot ''temperature'' (Num (Fin 35)))
        (snapshot ''temperature'' (Num (Fin 25)))
        (example_pending example_delayed_above_trigger))) (example_uuid 0) = None
   \<and> timers (fst (runAutomationIfMatches (example_host OFF)
        (example_rule example_delayed_above_trigger)
        (snapshot ''temperature'' (Num (Fin 25))) (snapshot ''temperature'' (Num (Fin 35)))
        (snapshot ''temperature'' (Num (Fin 25)))
        (example_pending example_delayed_above_trigger))) 0 = None
   \<and> runAutomationIfMatches (example_host OFF)
        (example_rule example_delayed_above_trigger)
        (snapshot ''temperature'' (Num (Fin 32))) (snapshot ''temperature'' (Num (Fin 35)))
        (snapshot ''temperature'' (Num (Fin 32)))
        (example_pending example_delayed_above_trigger)
      = (example_pending example_delayed_above_trigger, [])
   \<and> timeouts (fst (runAutomationIfMatches (example_host OFF)
        (example_rule example_delayed_above_trigger)
        (snapshot ''temperature'' (Num (Fin 32))) (snapshot ''temperature'' (Num (Fin 35)))
        (snapshot ''temperature'' (Num (Fin 32)))
        (example_pending example_delayed_above_trigger))) (example_uuid 0) = Some 0"
proof -
  let ?T = "\<lambda>v. snapshot ''temperature'' (Num (Fin v))"
  let ?A = "example_rule example_above_trigger"
  let ?B = "example_rule example_below_trigger"
  let ?D = "example_rule example_delayed_above_trigger"
  let ?s = "example_pending example_above_trigger"
  let ?p = "example_pending example_delayed_above_trigger"
  let ?h = "example_host OFF"
  have a: "t_platform (r_trigger ?A) = NUMERIC_STATE"
    and b: "t_platform (r_trigger ?B) = NUMERIC_STATE"
    and d: "t_platform (r_trigger ?D) = NUMERIC_STATE"
    and k: "''temperature'' = property_key (t_attribute (r_trigger ?A))"
    and k': "''temperature'' = property_key (t_attribute (r_trigger ?B))"
    and k'': "''temperature'' = property_key (t_attribute (r_trigger ?D))"
    and own: "\<And>v. hasOwnProperty (snapshot ''temperature'' v) ''temperature''"
    and ne: "\<not> strict_eq (snapshot ''temperature'' (Num (Fin 25)) ''temperature'')
               (snapshot ''temperature'' (Num (Fin 35)) ''temperature'')"
      "\<not> strict_eq (snapshot ''temperature'' (Num (Fin 35)) ''temperature'')
               (snapshot ''temperature'' (Num (Fin 32)) ''temperature'')"
      "\<not> strict_eq (snapshot ''temperature'' (Num (Fin 35)) ''temperature'')
               (snapshot ''temperature'' (Num (Fin 25)) ''temperature'')"
    by (simp_all add: example_defs name_defs hasOwnProperty_def)
  have pending: "timeouts ?p (r_id ?D) = Some 0"
    and set: "timers ?p 0 = Some (?D, Some (Fin 10))"
    and bounds: "t_above (r_trigger ?D) = Some (Fin 30)" "t_below (r_trigger ?D) = None"
    and below: "js_lt (ToNumber ?h) (?T 25 ''temperature'') (Fin 30)"
    and held: "\<not> js_lt (ToNumber ?h) (?T 32 ''temperature'') (Fin 30)"
      "js_ge (ToNumber ?h) (?T 35 ''temperature'') (Fin 30)"
    and ident: "r_id ?D = example_uuid 0"
    by (simp_all add: example_defs js_lt_def js_ge_def)
  have checks:
    "checkTrigger example_ToNumber example_above_trigger (?T 35) (?T 25) (?T 35) = MATCH
     \<and> checkTrigger example_ToNumber example_above_trigger (?T 32) (?T 35) (?T 32) = NO_MATCH
     \<and> checkTrigger example_ToNumber example_above_trigger (?T 25) (?T 35) (?T 25)
         = NEGATIVE_EDGE
     \<and> checkTrigger example_ToNumber example_below_trigger (?T 25) (?T 35) (?T 25) = MATCH
     \<and> checkTrigger example_ToNumber example_below_trigger (?T 35) (?T 25) (?T 35)
         = NEGATIVE_EDGE"
    using
      numeric_trigger_single_threshold [of ?A "''temperature''" "?T 35" "?T 25" "?T 35"
        "Fin 30" ?h ?s 0, OF a k own own own ne(1)]
      numeric_trigger_single_threshold [of ?A "''temperature''" "?T 32" "?T 35" "?T 32"
        "Fin 30" ?h ?s 0, OF a k own own own ne(2)]
      numeric_trigger_single_threshold [of ?A "''temperature''" "?T 25" "?T 35" "?T 25"
        "Fin 30" ?h ?s 0, OF a k own own own ne(3)]
      numeric_trigger_single_threshold [of ?B "''temperature''" "?T 25" "?T 35" "?T 25"
        "Fin 30" ?h ?s 0, OF b k' own own own ne(3)]
      numeric_trigger_single_threshold [of ?B "''temperature''" "?T 35" "?T 25" "?T 35"
        "Fin 30" ?h ?s 0, OF b k' own own own ne(1)]
    by (simp add: example_defs js_lt_def js_gt_def js_le_def js_ge_def)
  note edge = numeric_trigger_single_threshold [of ?D "''temperature''" "?T 25" "?T 35" "?T 25"
        "Fin 30" ?h ?p 0, OF d k'' own own own ne(3)]
  note hold = numeric_trigger_single_threshold [of ?D "''temperature''" "?T 32" "?T 35" "?T 32"
        "Fin 30" ?h ?p 0, OF d k'' own own own ne(2)]
  have cancelled:
    "timeouts (fst (runAutomationIfMatches ?h ?D (?T 25) (?T 35) (?T 25) ?p)) (r_id ?D) = None
     \<and> timers (fst (runAutomationIfMatches ?h ?D (?T 25) (?T 35) (?T 25) ?p)) 0 = None"
    using edge bounds below pending by blast
  have "checkTrigger (ToNumber ?h) (r_trigger ?D) (?T 32) (?T 35) (?T 32) = NO_MATCH"
    using hold bounds held by simp
  with hold have kept:
    "runAutomationIfMatches ?h ?D (?T 32) (?T 35) (?T 32) ?p = (?p, [])" by blast
  show ?thesis
    using a own ne(1) checks pending set below cancelled kept ident by simp
qed

text \<open>
  C5. For a state-like trigger (\<^verbatim>\<open>state\<close>, \<^verbatim>\<open>state_l1\<close>, \<^verbatim>\<open>state_l2\<close>) whose attribute
  the three snapshots carry: if \<^verbatim>\<open>from[attr] === to[attr]\<close> the result is NO_MATCH whatever
  \<^verbatim>\<open>update[attr]\<close> is; otherwise the result is MATCH exactly when \<^verbatim>\<open>update[attr]\<close> is one of
  the accepted values. The value of \<^verbatim>\<open>to[attr]\<close> plays no part in that second test.
\<close>

theorem state_trigger_match:
  assumes "(t_platform t, attribute, accepted_values) \<in>
             {(STATE, or_default (t_attribute t) ''state'', t_state t),
              (STATE_L1, or_default (t_attribute t) ''state_l1'', t_state_l1 t),
              (STATE_L2, or_default (t_attribute t) ''state_l2'', t_state_l2 t)}"
    and "hasOwnProperty update attribute" and "hasOwnProperty from attribute"
    and "hasOwnProperty to attribute"
  shows "(strict_eq (from attribute) (to attribute) \<longrightarrow>
            checkTrigger tn t update from to = NO_MATCH)
       \<and> (\<not> strict_eq (from attribute) (to attribute) \<longrightarrow>
            (checkTrigger tn t update from to = MATCH)
              = array_includes (toArrayU accepted_values) (update attribute))"
  using assms(2-4) by (simp add: checkTrigger_state_like [OF assms(1)] check_state_trigger_def)

theorem state_trigger_match_witness:
  "hasOwnProperty (snapshot ''state'' ON) ''state''
   \<and> strict_eq (snapshot ''state'' OFF ''state'') (snapshot ''state'' OFF ''state'')
   \<and> checkTrigger example_ToNumber example_trigger
        (snapshot ''state'' ON) (snapshot ''state'' OFF) (snapshot ''state'' OFF) = NO_MATCH
   \<and> \<not> strict_eq (snapshot ''state'' OFF ''state'') (snapshot ''state'' (Str ''TOGGLE'') ''state'')
   \<and> checkTrigger example_ToNumber example_trigger
        (snapshot ''state'' ON) (snapshot ''state'' OFF) (snapshot ''state'' (Str ''TOGGLE'')) = MATCH
   \<and> checkTrigger example_ToNumber example_trigger
        (snapshot ''state'' OFF) (snapshot ''state'' ON) (snapshot ''state'' OFF) \<noteq> MATCH"
proof -
  have p: "(t_platform example_trigger, ''state'', t_state example_trigger) \<in>
             {(STATE, or_default (t_attribute example_trigger) ''state'', t_state example_trigger),
              (STATE_L1, or_default (t_attribute example_trigger) ''state_l1'',
                 t_state_l1 example_trigger),
              (STATE_L2, or_default (t_attribute example_trigger) ''state_l2'',
                 t_state_l2 example_trigger)}"
    and own: "\<And>v. hasOwnProperty (snapshot ''state'' v) ''state''"
    by (simp_all add: example_defs name_defs hasOwnProperty_def)
  let ?S = "snapshot ''state''"
  show ?thesis
    using own
      state_trigger_match [of example_trigger "''state''" "t_state example_trigger"
        "?S ON" "?S OFF" "?S OFF" example_ToNumber, OF p own own own]
      state_trigger_match [of example_trigger "''state''" "t_state example_trigger"
        "?S ON" "?S OFF" "?S (Str ''TOGGLE'')" example_ToNumber, OF p own own own]
      state_trigger_match [of example_trigger "''state''" "t_state example_trigger"
        "?S OFF" "?S ON" "?S OFF" example_ToNumber, OF p own own own]
    by (simp add: example_defs name_defs array_includes_def)
qed

text \<open>
  C10. For a state-like trigger whose attribute the three snapshots carry, when
  \<^verbatim>\<open>from[attr]\<close> differs from \<^verbatim>\<open>to[attr]\<close> and \<^verbatim>\<open>update[attr]\<close> is not one of the accepted
  values, the matcher returns NEGATIVE_EDGE (\<^verbatim>\<open>false\<close>), not NO_MATCH, and the caller
  removes and clears the rule's pending timer.
\<close>

theorem state_trigger_negative_edge:
  assumes "(t_platform (r_trigger automation), attribute, accepted_values) \<in>
             {(STATE, or_default (t_attribute (r_trigger automation)) ''state'',
                 t_state (r_trigger automation)),
              (STATE_L1, or_default (t_attribute (r_trigger automation)) ''state_l1'',
                 t_state_l1 (r_trigger automation)),
              (STATE_L2, or_default (t_attribute (r_trigger automation)) ''state_l2'',
                 t_state_l2 (r_trigger automation))}"
    and "hasOwnProperty update attribute" and "hasOwnProperty from attribute"
    and "hasOwnProperty to attribute"
    and "\<not> strict_eq (from attribute) (to attribute)"
    and "\<not> array_includes (toArrayU accepted_values) (update attribute)"
  shows "checkTrigger (ToNumber h) (r_trigger automation) update from to = NEGATIVE_EDGE
       \<and> runAutomationIfMatches h automation update from to s
           = (stopTimeout (r_id automation) s, [])
       \<and> timeouts (stopTimeout (r_id automation) s) (r_id automation) = None
       \<and> (\<forall>timeout. timeouts s (r_id automation) = Some timeout \<longrightarrow>
             timers (stopTimeout (r_id automation) s) timeout = None)"
proof -
  have ne: "checkTrigger (ToNumber h) (r_trigger automation) update from to = NEGATIVE_EDGE"
    using assms(2-6) by (simp add: checkTrigger_state_like [OF assms(1)] check_state_trigger_def)
  show ?thesis
    using ne negative_edge_stops_timeout [OF ne] stopTimeout_clears by simp
qed

theorem state_trigger_negative_edge_witness:
  "hasOwnProperty (snapshot ''state'' OFF) ''state''
   \<and> \<not> strict_eq (snapshot ''state'' ON ''state'') (snapshot ''state'' OFF ''state'')
   \<and> \<not> array_includes (toArrayU (t_state example_trigger)) (snapshot ''state'' OFF ''state'')
   \<and> timeouts (example_pending example_trigger) (example_uuid 0) = Some 0
   \<and> checkTrigger example_ToNumber example_trigger
        (snapshot ''state'' OFF) (snapshot ''state'' ON) (snapshot ''state'' OFF) = NEGATIVE_EDGE
   \<and> timeouts (fst (runAutomationIfMatches (example_host OFF) (example_rule example_trigger)
        (snapshot ''state'' OFF) (snapshot ''state'' ON) (snapshot ''state'' OFF)
        (example_pending example_trigger))) (example_uuid 0) = None
   \<and> timers (fst (runAutomationIfMatches (example_host OFF) (example_rule example_trigger)
        (snapshot ''state'' OFF) (snapshot ''state'' ON) (snapshot ''state'' OFF)
        (example_pending example_trigger))) 0 = None"
proof -
  let ?a = "example_rule example_trigger"
  have p: "(t_platform (r_trigger ?a), ''state'', t_state (r_trigger ?a)) \<in>
             {(STATE, or_default (t_attribute (r_trigger ?a)) ''state'', t_state (r_trigger ?a)),
              (STATE_L1, or_default (t_attribute (r_trigger ?a)) ''state_l1'',
                 t_state_l1 (r_trigger ?a)),
              (STATE_L2, or_default (t_attribute (r_trigger ?a)) ''state_l2'',
                 t_state_l2 (r_trigger ?a))}"
    and own: "\<And>v. hasOwnProperty (snapshot ''state'' v) ''state''"
    and ne: "\<not> strict_eq (snapshot ''state'' ON ''state'') (snapshot ''state'' OFF ''state'')"
    and out: "\<not> array_includes (toArrayU (t_state (r_trigger ?a)))
                 (snapshot ''state'' OFF ''state'')"
    and pending: "timeouts (example_pending example_trigger) (example_uuid 0) = Some 0"
    by (simp_all add: example_defs name_defs hasOwnProperty_def array_includes_def)
  let ?S = "snapshot ''state''"
  show ?thesis
    using own ne out pending
      state_trigger_negative_edge [of ?a "''state''" "t_state (r_trigger ?a)"
        "?S OFF" "?S ON" "?S OFF" "example_host OFF" "example_pending example_trigger",
        OF p own own own ne out]
    by (simp add: example_defs stopTimeout_def)
qed



section \<open>The action runner\<close>

lemma runActions_append: "runActions h (xs @ ys) = runActions h xs @ runActions h ys"
  by (induction xs) simp_all

lemma runAction_skip:
  assumes "a_service action \<in> {TURN_ON, TURN_OFF, TOGGLE}"
    and "resolveEntity h (a_entity action) = Some destination"
    and "strict_eq (state_get h destination ''state'')
           (newState (a_service action) (state_get h destination ''state''))"
  shows "runAction h action = []"
  using assms service_names_distinct by (auto simp add: runAction_def Let_def)

lemma turn_on_when_on: "strict_eq (Some ON) (newState TURN_ON (Some ON))"
  by (simp add: newState_def ON_def)

text \<open>A toggle never computes the current state, so it is never skipped.\<close>

lemma toggle_changes_state: "\<not> strict_eq currentState (newState TOGGLE currentState)"
  using service_names_distinct
  by (cases "strict_eq currentState (Some ON)")
     (auto simp add: newState_def ON_def OFF_def elim: strict_eq.elims)

text \<open>
  C7. For an action whose service is \<^verbatim>\<open>turn_on\<close>, \<^verbatim>\<open>turn_off\<close> or \<^verbatim>\<open>toggle\<close> and whose
  entity resolves: if the computed new state is (\<^verbatim>\<open>===\<close>) the destination's current state,
  the action contributes nothing to what \<^verbatim>\<open>runActions\<close> does, no publish and no log line;
  in particular \<^verbatim>\<open>turn_on\<close> on a destination whose state is \<^verbatim>\<open>ON\<close> publishes nothing.
\<close>

theorem no_redundant_publish:
  assumes "a_service action \<in> {TURN_ON, TURN_OFF, TOGGLE}"
    and "resolveEntity h (a_entity action) = Some destination"
  shows "(strict_eq (state_get h destination ''state'')
            (newState (a_service action) (state_get h destination ''state'')) \<longrightarrow>
          runActions h (before @ action # after) = runActions h before @ runActions h after)
       \<and> (a_service action = TURN_ON \<and> state_get h destination ''state'' = Some ON \<longrightarrow>
          runActions h [action] = [] \<and> published (runActions h [action]) = [])"
proof (intro conjI impI)
  assume "strict_eq (state_get h destination ''state'')
            (newState (a_service action) (state_get h destination ''state''))"
  with assms have "runAction h action = []" by (rule runAction_skip)
  then show "runActions h (before @ action # after) = runActions h before @ runActions h after"
    by (simp add: runActions_append)
next
  assume "a_service action = TURN_ON \<and> state_get h destination ''state'' = Some ON"
  then have "strict_eq (state_get h destination ''state'')
            (newState (a_service action) (state_get h destination ''state''))"
    using turn_on_when_on by simp
  with assms have skip: "runAction h action = []" by (rule runAction_skip)
  then show "runActions h [action] = []" by simp
  from skip show "published (runActions h [action]) = []" by simp
qed

theorem no_redundant_publish_witness:
  "a_service example_action \<in> {TURN_ON, TURN_OFF, TOGGLE}
   \<and> resolveEntity (example_host ON) (a_entity example_action) = Some \<lparr>e_name = ''Y''\<rparr>
   \<and> a_service example_action = TURN_ON
   \<and> state_get (example_host ON) \<lparr>e_name = ''Y''\<rparr> ''state'' = Some ON
   \<and> strict_eq (state_get (example_host ON) \<lparr>e_name = ''Y''\<rparr> ''state'')
        (newState (a_service example_action)
           (state_get (example_host ON) \<lparr>e_name = ''Y''\<rparr> ''state''))
   \<and> runActions (example_host ON) [example_action] = []
   \<and> runActions (example_host ON)
        ([example_action\<lparr>a_service := ''custom''\<rparr>] @ example_action # [])
      = runActions (example_host ON) [example_action\<lparr>a_service := ''custom''\<rparr>]
   \<and> published (runActions (example_host OFF) [example_action])
      = [(''zigbee2mqtt/Y/set'', StateData (Some ON))]"
proof -
  have s: "a_service example_action \<in> {TURN_ON, TURN_OFF, TOGGLE}"
    and r: "resolveEntity (example_host ON) (a_entity example_action) = Some \<lparr>e_name = ''Y''\<rparr>"
    and t: "a_service example_action = TURN_ON"
    and c: "state_get (example_host ON) \<lparr>e_name = ''Y''\<rparr> ''state'' = Some ON"
    and e: "strict_eq (state_get (example_host ON) \<lparr>e_name = ''Y''\<rparr> ''state'')
        (newState (a_service example_action)
           (state_get (example_host ON) \<lparr>e_name = ''Y''\<rparr> ''state''))"
    and p: "published (runActions (example_host OFF) [example_action])
      = [(''zigbee2mqtt/Y/set'', StateData (Some ON))]"
    by (simp_all add: example_defs name_defs newState_def runAction_def)
  show ?thesis
    using s r t c e p
      no_redundant_publish [OF s r, of "[example_action\<lparr>a_service := ''custom''\<rparr>]" "[]"]
    by simp
qed

section \<open>The condition evaluator\<close>

lemma conditions_all_satisfied:
  "list_all (satisfied h) cs \<Longrightarrow>
   runActionsWithConditions h cs actions = condition_log h cs @ runActions h actions"
  by (induction cs) (auto simp add: satisfied_def condition_log_def split: prod.splits)

lemma conditions_first_failure:
  "list_all (satisfied h) passed \<Longrightarrow> \<not> satisfied h c \<Longrightarrow>
   runActionsWithConditions h (passed @ c # later) actions = condition_log h (passed @ [c])"
  by (induction passed) (auto simp add: satisfied_def condition_log_def split: prod.splits)

text \<open>Evaluating conditions only ever logs that an entity was not found.\<close>

lemma condition_log_debug:
  "e \<in> set (condition_log h cs) \<Longrightarrow> \<exists>c \<in> set cs. e = Debug (ConditionNotFound (c_entity c))"
  by (auto simp add: condition_log_def checkCondition_def Let_def split: option.splits if_splits)

lemma published_none: "\<forall>e \<in> set es. \<exists>m. e = Debug m \<Longrightarrow> published es = []"
proof (induction es)
  case Nil
  then show ?case by simp
next
  case (Cons e es)
  then obtain m where "e = Debug m" by auto
  with Cons show ?case by simp
qed

lemma published_condition_log: "published (condition_log h cs) = []"
  using condition_log_debug [of _ h cs] by (intro published_none) blast

text \<open>
  C8. A condition whose entity does not resolve is satisfied. With an empty condition list
  the actions run. When every condition of the list is satisfied, all are evaluated and then
  the actions run. When a condition fails after a prefix of satisfied ones, what happens is
  the evaluation of that prefix and of the failing condition only: it does not depend on the
  conditions that follow nor on the actions, and nothing is published.
\<close>

theorem conditions_fail_open_conjunctive:
  "(resolveEntity h (c_entity c) = None \<longrightarrow> satisfied h c)
 \<and> runActionsWithConditions h [] actions = runActions h actions
 \<and> (list_all (satisfied h) cs \<longrightarrow>
      runActionsWithConditions h cs actions = condition_log h cs @ runActions h actions)
 \<and> (list_all (satisfied h) passed \<and> \<not> satisfied h c \<longrightarrow>
      runActionsWithConditions h (passed @ c # later) actions = condition_log h (passed @ [c])
      \<and> published (runActionsWithConditions h (passed @ c # later) actions) = [])"
  using conditions_all_satisfied [of h cs actions]
    conditions_first_failure [of h passed c later actions]
    published_condition_log [of h "passed @ [c]"]
  by (simp add: satisfied_def checkCondition_def)

theorem conditions_fail_open_conjunctive_witness:
  "resolveEntity (example_host OFF) (c_entity (example_condition ''Z'' ON)) = None
   \<and> satisfied (example_host OFF) (example_condition ''Z'' ON)
   \<and> list_all (satisfied (example_host OFF))
        [example_condition ''Z'' ON, example_condition ''Y'' OFF]
   \<and> published (runActionsWithConditions (example_host OFF)
        [example_condition ''Z'' ON, example_condition ''Y'' OFF] [example_action])
      = [(''zigbee2mqtt/Y/set'', StateData (Some ON))]
   \<and> \<not> satisfied (example_host OFF) (example_condition ''Y'' ON)
   \<and> runActionsWithConditions (example_host OFF)
        ([example_condition ''Z'' ON] @ example_condition ''Y'' ON # [example_condition ''Z'' OFF])
        [example_action]
      = [Debug (ConditionNotFound (Some ''Z''))]"
proof -
  let ?h = "example_host OFF"
  have z: "resolveEntity ?h (c_entity (example_condition ''Z'' ON)) = None"
    and sz: "satisfied ?h (example_condition ''Z'' ON)"
    and sy: "satisfied ?h (example_condition ''Y'' OFF)"
    and ny: "\<not> satisfied ?h (example_condition ''Y'' ON)"
    and lz: "condition_log ?h [example_condition ''Z'' ON, example_condition ''Y'' ON]
               = [Debug (ConditionNotFound (Some ''Z''))]"
    and lzy: "condition_log ?h [example_condition ''Z'' ON, example_condition ''Y'' OFF]
               = [Debug (ConditionNotFound (Some ''Z''))]"
    and act: "published (runActions ?h [example_action])
               = [(''zigbee2mqtt/Y/set'', StateData (Some ON))]"
    by (simp_all add: satisfied_def condition_log_def checkCondition_def runAction_def
          newState_def example_defs name_defs)
  show ?thesis
    using z sz sy ny lz lzy act
      conditions_fail_open_conjunctive [of ?h "example_condition ''Z'' ON" "[example_action]"
        "[example_condition ''Z'' ON, example_condition ''Y'' OFF]" "[]" "[]"]
      conditions_fail_open_conjunctive [of ?h "example_condition ''Y'' ON" "[example_action]"
        "[]" "[example_condition ''Z'' ON]" "[example_condition ''Z'' OFF]"]
    by simp
qed



section \<open>The rule store\<close>

text \<open>An entry with an unknown service in any of its actions is dropped with a warning.\<close>

lemma check_actions_unknown:
  "\<exists>a \<in> set actions. \<not> array_includes services (a_service a) \<Longrightarrow>
   \<exists>msg. check_actions actions = Some msg"
  by (induction actions) auto

lemma unknown_service_dropped:
  assumes "\<exists>a \<in> set (toArray (cfg_action automation)). \<not> array_includes services (a_service a)"
  shows "\<exists>msg. parse_automation randomUUID automation p = Inr (warning p msg)"
proof -
  obtain msg where "check_actions (toArray (cfg_action automation)) = Some msg"
    using check_actions_unknown [OF assms] by blast
  then show ?thesis
    by (auto simp add: parse_automation_def Let_def)
qed

text \<open>The loop over the entities: one step, the number of calls, what it stores.\<close>

lemma push_entities_Cons:
  assumes "push_entities randomUUID t acts conds (x # xs) (res, n) = Inr (res', n')"
  shows "push_entities randomUUID t acts conds xs
           (res(x \<mapsto> rules_for res x
              @ [\<lparr>r_id = randomUUID n, r_trigger = t, r_action = acts, r_condition = conds\<rparr>]),
            Suc n) = Inr (res', n')"
  using assms
  by (cases "get_prop res x")
     (auto simp add: Let_def rules_for_def get_prop_def split: option.splits if_splits)

lemma push_entities_calls:
  "push_entities randomUUID t acts conds es (res, n) = Inr (res', n') \<Longrightarrow> n' = n + length es"
proof (induction es arbitrary: res n)
  case Nil
  then show ?case by simp
next
  case (Cons x xs)
  from Cons.IH [OF push_entities_Cons [OF Cons.prems]] show ?case by simp
qed

lemma push_entities_keeps:
  "push_entities randomUUID t acts conds es (res, n) = Inr (res', n') \<Longrightarrow>
   r \<in> set (rules_for res e) \<Longrightarrow> r \<in> set (rules_for res' e)"
proof (induction es arbitrary: res n)
  case Nil
  then show ?case by simp
next
  case (Cons x xs)
  let ?res1 = "res(x \<mapsto> rules_for res x
              @ [\<lparr>r_id = randomUUID n, r_trigger = t, r_action = acts, r_condition = conds\<rparr>])"
  have "r \<in> set (rules_for ?res1 e)"
    using Cons.prems(2) by (auto simp add: rules_for_def split: option.splits)
  with push_entities_Cons [OF Cons.prems(1)] show ?case by (rule Cons.IH)
qed

lemma push_entities_ids:
  "push_entities randomUUID t acts conds es (res, n) = Inr (res', n') \<Longrightarrow> k < length es \<Longrightarrow>
   \<lparr>r_id = randomUUID (n + k), r_trigger = t, r_action = acts, r_condition = conds\<rparr>
     \<in> set (rules_for res' (es ! k))"
proof (induction es arbitrary: res n k)
  case Nil
  then show ?case by simp
next
  case (Cons x xs)
  let ?rule = "\<lparr>r_id = randomUUID n, r_trigger = t, r_action = acts, r_condition = conds\<rparr>"
  let ?res1 = "res(x \<mapsto> rules_for res x @ [?rule])"
  note step = push_entities_Cons [OF Cons.prems(1)]
  show ?case
  proof (cases k)
    case 0
    have "?rule \<in> set (rules_for ?res1 x)" by (simp add: rules_for_def)
    from push_entities_keeps [OF step this] show ?thesis using 0 by simp
  next
    case (Suc j)
    then have "j < length xs" using Cons.prems(2) by simp
    from Cons.IH [OF step this] show ?thesis using Suc by simp
  qed
qed

lemma push_entities_no_throw:
  "set es \<inter> set object_prototype_keys = {} \<Longrightarrow>
   \<exists>res'. push_entities randomUUID t acts conds es (res, n) = Inr (res', n + length es)"
proof (induction es arbitrary: res n)
  case Nil
  then show ?case by simp
next
  case (Cons x xs)
  let ?rule = "\<lparr>r_id = randomUUID n, r_trigger = t, r_action = acts, r_condition = conds\<rparr>"
  have tail: "set xs \<inter> set object_prototype_keys = {}" using Cons.prems by auto
  have "get_prop res x \<noteq> Inherited"
    using Cons.prems by (auto simp add: get_prop_def array_includes_def split: option.splits)
  then consider "get_prop res x = Undefined" | rules where "get_prop res x = Own rules"
    by (cases "get_prop res x") auto
  then show ?case
  proof cases
    case 1
    obtain res' where "push_entities randomUUID t acts conds xs (res(x \<mapsto> [] @ [?rule]), Suc n)
        = Inr (res', Suc n + length xs)"
      using Cons.IH [OF tail] by blast
    with 1 show ?thesis by (simp add: Let_def)
  next
    case 2
    obtain res' where "push_entities randomUUID t acts conds xs (res(x \<mapsto> rules @ [?rule]), Suc n)
        = Inr (res', Suc n + length xs)"
      using Cons.IH [OF tail] by blast
    with 2 show ?thesis by (simp add: Let_def)
  qed
qed

lemma parse_automation_accepted:
  assumes "accepted automation"
  shows "parse_automation randomUUID automation p =
           (case push_entities randomUUID (cfg_trigger automation)
                   (toArray (cfg_action automation))
                   (case cfg_condition automation of None \<Rightarrow> [] | Some c \<Rightarrow> toArray c)
                   (entities_of automation) (p_result p, p_calls p) of
              Inl e \<Rightarrow> Inl e
            | Inr (result, n) \<Rightarrow> Inr (p\<lparr>p_result := result, p_calls := n\<rparr>))"
  using assms by (simp add: accepted_def parse_automation_def entities_of_def Let_def)

lemma parse_automation_rejected:
  assumes "\<not> accepted automation"
  shows "\<exists>msg. parse_automation randomUUID automation p = Inr (warning p msg)"
  using assms
  by (auto simp add: accepted_def parse_automation_def Let_def split: option.splits)

text \<open>
  \<^verbatim>\<open>parseConfig\<close> returns, with every accepted entry loaded, as long as no accepted entry
  names an entity after a property of \<^verbatim>\<open>Object.prototype\<close>.
\<close>

lemma parse_automation_returns:
  assumes "accepted automation \<longrightarrow> set (entities_of automation) \<inter> set object_prototype_keys = {}"
  shows "\<exists>p'. parse_automation randomUUID automation p = Inr p'"
proof (cases "accepted automation")
  case False
  from parse_automation_rejected [OF this] show ?thesis by blast
next
  case True
  with assms have "set (entities_of automation) \<inter> set object_prototype_keys = {}" by simp
  from push_entities_no_throw [OF this] obtain res' where
    "push_entities randomUUID (cfg_trigger automation) (toArray (cfg_action automation))
       (case cfg_condition automation of None \<Rightarrow> [] | Some c \<Rightarrow> toArray c)
       (entities_of automation) (p_result p, p_calls p)
     = Inr (res', p_calls p + length (entities_of automation))"
    by blast
  then show ?thesis by (simp add: parse_automation_accepted [OF True])
qed

lemma parse_automations_returns:
  "\<forall>automation \<in> set entries. accepted automation \<longrightarrow>
      set (entities_of automation) \<inter> set object_prototype_keys = {} \<Longrightarrow>
   \<exists>p'. parse_automations randomUUID entries p = Inr p'"
proof (induction entries arbitrary: p)
  case Nil
  then show ?case by simp
next
  case (Cons a entries)
  then obtain p1 where "parse_automation randomUUID a p = Inr p1"
    using parse_automation_returns [of a randomUUID p] by auto
  moreover obtain p' where "parse_automations randomUUID entries p1 = Inr p'"
    using Cons.IH [of p1] Cons.prems by auto
  ultimately show ?case by simp
qed

text \<open>
  C2, as the code has it. \<^verbatim>\<open>crypto.randomUUID()\<close> is called inside the loop over the
  trigger's entities: for an accepted entry (none of whose entities is named after a property
  of \<^verbatim>\<open>Object.prototype\<close>) there is one call for each entity, and the replica stored for
  the entity at position \<open>k\<close> carries the identifier returned by the call number \<open>k\<close> of
  that entry. An identifier belongs to a replica, not to the entry.
\<close>

theorem one_uuid_per_replica:
  assumes "accepted automation"
    and "set (entities_of automation) \<inter> set object_prototype_keys = {}"
  shows "\<exists>p'. parse_automation randomUUID automation p = Inr p'
           \<and> p_calls p' = p_calls p + length (entities_of automation)
           \<and> (\<forall>k < length (entities_of automation).
                 replica automation (randomUUID (p_calls p + k))
                   \<in> set (rules_for (p_result p') (entities_of automation ! k)))"
proof -
  let ?conds = "case cfg_condition automation of None \<Rightarrow> [] | Some c \<Rightarrow> toArray c"
  from push_entities_no_throw [OF assms(2)] obtain res' where push:
    "push_entities randomUUID (cfg_trigger automation) (toArray (cfg_action automation))
       ?conds (entities_of automation) (p_result p, p_calls p)
     = Inr (res', p_calls p + length (entities_of automation))"
    by blast
  let ?p' = "p\<lparr>p_result := res', p_calls := p_calls p + length (entities_of automation)\<rparr>"
  have "parse_automation randomUUID automation p = Inr ?p'"
    using push by (simp add: parse_automation_accepted [OF assms(1)])
  moreover have "\<forall>k < length (entities_of automation).
      replica automation (randomUUID (p_calls p + k))
        \<in> set (rules_for (p_result ?p') (entities_of automation ! k))"
    using push_entities_ids [OF push] by (simp add: replica_def)
  ultimately show ?thesis by simp
qed

theorem one_uuid_per_replica_witness:
  "accepted (example_entry (Many [''X'', ''Z'']))
   \<and> set (entities_of (example_entry (Many [''X'', ''Z'']))) \<inter> set object_prototype_keys = {}
   \<and> (\<exists>p'. parse_automation example_uuid (example_entry (Many [''X'', ''Z'']))
              \<lparr>p_result = Map.empty, p_calls = 0, p_log = []\<rparr> = Inr p'
         \<and> p_calls p' = 2
         \<and> replica (example_entry (Many [''X'', ''Z''])) ''uuid-''
             \<in> set (rules_for (p_result p') ''X'')
         \<and> replica (example_entry (Many [''X'', ''Z''])) ''uuid-i''
             \<in> set (rules_for (p_result p') ''Z''))"
proof -
  let ?e = "example_entry (Many [''X'', ''Z''])"
  have a: "accepted ?e"
    and k: "set (entities_of ?e) \<inter> set object_prototype_keys = {}"
    and es: "entities_of ?e = [''X'', ''Z'']"
    by (simp_all add: accepted_def entities_of_def object_prototype_keys_def
          array_includes_def example_defs name_defs)
  from one_uuid_per_replica [OF a k, of example_uuid
      "\<lparr>p_result = Map.empty, p_calls = 0, p_log = []\<rparr>"]
  obtain p' where p': "parse_automation example_uuid ?e
        \<lparr>p_result = Map.empty, p_calls = 0, p_log = []\<rparr> = Inr p'"
      "p_calls p' = 2"
      "\<forall>k < 2. replica ?e (example_uuid k) \<in> set (rules_for (p_result p') ([''X'', ''Z''] ! k))"
    using es by auto
  from p'(3) [rule_format, of 0] p'(3) [rule_format, of 1]
  have "replica ?e (example_uuid 0) \<in> set (rules_for (p_result p') ''X'')"
    and "replica ?e (example_uuid 1) \<in> set (rules_for (p_result p') ''Z'')"
    by simp_all
  then have "replica ?e ''uuid-'' \<in> set (rules_for (p_result p') ''X'')"
    and "replica ?e ''uuid-i'' \<in> set (rules_for (p_result p') ''Z'')"
    by (simp_all add: example_uuid_def)
  with a k p'(1,2) show ?thesis by blast
qed

text \<open>
  C2 as stated fails: an entry whose trigger names the entities \<^verbatim>\<open>X\<close> and \<^verbatim>\<open>Z\<close> gives
  two replicas with different identifiers.
\<close>

theorem replicas_differ_counterexample:
  "rule_ids (parseConfig example_uuid (\<lambda>path. None)
      (Mapping [example_entry (Many [''X'', ''Z''])])) ''X'' = [''uuid-'']
   \<and> rule_ids (parseConfig example_uuid (\<lambda>path. None)
      (Mapping [example_entry (Many [''X'', ''Z''])])) ''Z'' = [''uuid-i'']"
  by (simp add: engine_defs name_defs example_defs Let_def rule_ids_def rules_for_def)

text \<open>
  An entry with an unknown service leaves the store as it was, and the valid entry beside it
  is loaded.
\<close>

lemma unknown_service_example:
  "rule_ids (parseConfig example_uuid (\<lambda>path. None)
      (Mapping [example_bad_entry, example_entry (One ''X'')])) ''X'' = [''uuid-'']"
  by (simp add: engine_defs name_defs example_defs Let_def rule_ids_def rules_for_def)

text \<open>
  C9 at an input where the code departs from it: a configuration whose second entry, valid
  in every respect, names the entity \<^verbatim>\<open>constructor\<close>. \<^verbatim>\<open>result['constructor']\<close> is the
  inherited \<^verbatim>\<open>Object\<close> function, so no array is created and \<^verbatim>\<open>push\<close> is called on it:
  \<^verbatim>\<open>parseConfig\<close> throws, and the valid entry before it is not loaded either.
\<close>

theorem parseConfig_throws_on_inherited_name:
  "accepted (example_entry (One ''constructor''))
   \<and> parseConfig example_uuid (\<lambda>path. None)
       (Mapping [example_entry (One ''X''), example_entry (One ''constructor'')])
     = Inl TypeError"
  by (simp add: accepted_def engine_defs name_defs example_defs Let_def)



section \<open>The scheduler\<close>

text \<open>The consistency of the timer bookkeeping, and its preservation by every operation.\<close>

lemma timer_invI:
  assumes "\<And>ident timeout. timeouts s ident = Some timeout \<Longrightarrow>
          \<exists>automation time. timers s timeout = Some (automation, time) \<and> r_id automation = ident"
    and "\<And>timeout automation time. timers s timeout = Some (automation, time) \<Longrightarrow>
            timeouts s (r_id automation) = Some timeout"
    and "\<And>timeout automation time. timers s timeout = Some (automation, time) \<Longrightarrow>
            timeout < next_timer s"
  shows "timer_inv s"
  using assms unfolding timer_inv_def by blast

lemma timer_inv_registered:
  "timer_inv s \<Longrightarrow> timeouts s ident = Some timeout \<Longrightarrow>
   \<exists>automation time. timers s timeout = Some (automation, time) \<and> r_id automation = ident"
  unfolding timer_inv_def by blast

lemma timer_inv_owner:
  "timer_inv s \<Longrightarrow> timers s timeout = Some (automation, time) \<Longrightarrow>
   timeouts s (r_id automation) = Some timeout"
  unfolding timer_inv_def by blast

lemma timer_inv_bound:
  "timer_inv s \<Longrightarrow> timers s timeout = Some (automation, time) \<Longrightarrow> timeout < next_timer s"
  unfolding timer_inv_def by blast

lemma timer_inv_remove:
  assumes inv: "timer_inv s" and reg: "timeouts s ident = Some timeout"
  shows "timer_inv (s\<lparr>timers := (timers s)(timeout := None),
                      timeouts := (timeouts s)(ident := None)\<rparr>)"
    (is "timer_inv ?s'")
proof (rule timer_invI)
  fix i t assume a: "timeouts ?s' i = Some t"
  then have i: "i \<noteq> ident" and ti: "timeouts s i = Some t" by (auto split: if_splits)
  from timer_inv_registered [OF inv ti] obtain a d where
    tm: "timers s t = Some (a, d)" and id: "r_id a = i" by blast
  have "t \<noteq> timeout"
  proof
    assume "t = timeout"
    with timer_inv_registered [OF inv reg] tm id i show False by auto
  qed
  with tm id show "\<exists>automation time. timers ?s' t = Some (automation, time) \<and> r_id automation = i"
    by simp
next
  fix t a d assume "timers ?s' t = Some (a, d)"
  then have t: "t \<noteq> timeout" and tm: "timers s t = Some (a, d)" by (auto split: if_splits)
  from timer_inv_owner [OF inv tm] have own: "timeouts s (r_id a) = Some t" .
  with reg t have "r_id a \<noteq> ident" by auto
  with own show "timeouts ?s' (r_id a) = Some t" by simp
next
  fix t a d assume "timers ?s' t = Some (a, d)"
  then have "timers s t = Some (a, d)" by (auto split: if_splits)
  from timer_inv_bound [OF inv this] show "t < next_timer ?s'" by simp
qed

lemma timer_inv_stopTimeout: "timer_inv s \<Longrightarrow> timer_inv (stopTimeout ident s)"
  using timer_inv_remove [of s ident]
  by (cases "timeouts s ident") (simp_all add: stopTimeout_def)

lemma timer_inv_startTimeout:
  assumes inv: "timer_inv s" and free: "timeouts s (r_id automation) = None"
  shows "timer_inv (fst (startTimeout automation time s))"
proof -
  let ?n = "next_timer s"
  let ?s' = "s\<lparr>timers := (timers s)(?n \<mapsto> (automation, time)), next_timer := Suc ?n,
               timeouts := (timeouts s)(r_id automation \<mapsto> ?n)\<rparr>"
  have fresh: "timers s ?n = None"
  proof (cases "timers s ?n")
    case None then show ?thesis .
  next
    case (Some p)
    then have "timers s ?n = Some (fst p, snd p)" by simp
    from timer_inv_bound [OF inv this] show ?thesis by simp
  qed
  have "timer_inv ?s'"
  proof (rule timer_invI)
    fix i t assume a: "timeouts ?s' i = Some t"
    show "\<exists>a d. timers ?s' t = Some (a, d) \<and> r_id a = i"
    proof (cases "i = r_id automation")
      case True
      with a show ?thesis by simp
    next
      case False
      with a have ti: "timeouts s i = Some t" by simp
      from timer_inv_registered [OF inv ti] obtain a d where
        tm: "timers s t = Some (a, d)" and id: "r_id a = i" by blast
      with fresh have "t \<noteq> ?n" by auto
      with tm id show ?thesis by simp
    qed
  next
    fix t a d assume a: "timers ?s' t = Some (a, d)"
    show "timeouts ?s' (r_id a) = Some t"
    proof (cases "t = ?n")
      case True
      with a show ?thesis by simp
    next
      case False
      with a have tm: "timers s t = Some (a, d)" by simp
      from timer_inv_owner [OF inv tm] have own: "timeouts s (r_id a) = Some t" .
      with free have "r_id a \<noteq> r_id automation" by auto
      with own show ?thesis by simp
    qed
  next
    fix t a d assume a: "timers ?s' t = Some (a, d)"
    show "t < next_timer ?s'"
    proof (cases "t = ?n")
      case True
      then show ?thesis by simp
    next
      case False
      with a have tm: "timers s t = Some (a, d)" by simp
      from timer_inv_bound [OF inv tm] show ?thesis by simp
    qed
  qed
  then show ?thesis by (simp add: startTimeout_def Let_def)
qed

lemma timer_inv_fire_timer: "timer_inv s \<Longrightarrow> timer_inv (fst (fire_timer h timeout s))"
proof (cases "timers s timeout")
  case None
  assume "timer_inv s"
  with None show ?thesis by (simp add: fire_timer_def)
next
  case (Some p)
  assume inv: "timer_inv s"
  obtain a d where p: "p = (a, d)" by (cases p)
  with Some have tm: "timers s timeout = Some (a, d)" by simp
  from timer_inv_remove [OF inv timer_inv_owner [OF inv tm]]
  show ?thesis using tm by (simp add: fire_timer_def timeout_callback_def)
qed


lemma timer_inv_runAutomationIfMatches:
  assumes inv: "timer_inv s"
  shows "timer_inv (fst (runAutomationIfMatches h automation update from to s))"
proof -
  let ?r = "checkTrigger (ToNumber h) (r_trigger automation) update from to"
  consider "?r = Some False" | "?r = None"
    | "?r = Some True" "timeouts s (r_id automation) \<noteq> None"
    | "?r = Some True" "timeouts s (r_id automation) = None"
        "truthy_num (t_for (r_trigger automation))"
    | "?r = Some True" "timeouts s (r_id automation) = None"
        "\<not> truthy_num (t_for (r_trigger automation))"
    by (cases ?r) auto
  then show ?thesis
  proof cases
    case 1
    then show ?thesis
      using timer_inv_stopTimeout [OF inv] by (simp add: runAutomationIfMatches_def)
  next
    case 2
    then show ?thesis using inv by (simp add: runAutomationIfMatches_def)
  next
    case 3
    then show ?thesis using inv by (simp add: runAutomationIfMatches_def)
  next
    case 4
    then show ?thesis
      using timer_inv_startTimeout [OF inv 4(2), of "t_for (r_trigger automation)"]
      by (auto simp add: runAutomationIfMatches_def split: prod.splits)
  next
    case 5
    then show ?thesis using inv by (simp add: runAutomationIfMatches_def)
  qed
qed

lemma timer_inv_run_automations:
  "timer_inv s \<Longrightarrow> timer_inv (fst (run_automations h rules update from to s))"
proof (induction rules arbitrary: s)
  case Nil
  then show ?case by simp
next
  case (Cons a rules)
  obtain s1 out1 where one: "runAutomationIfMatches h a update from to s = (s1, out1)"
    by (cases "runAutomationIfMatches h a update from to s")
  with timer_inv_runAutomationIfMatches [OF Cons.prems, of h a update "from" to]
  have "timer_inv s1" by simp
  from Cons.IH [OF this] one show ?case by (auto split: prod.splits)
qed

lemma timer_inv_step:
  assumes inv: "timer_inv s" and st: "step h ev s = Inr (s', out)"
  shows "timer_inv s'"
proof (cases ev)
  case Start
  with assms show ?thesis by (auto simp add: timer_inv_def start_def)
next
  case Stop
  with assms show ?thesis by (auto simp add: timer_inv_def stop_def)
next
  case (StateChange entityId update "from" to)
  show ?thesis
  proof (cases "listening s")
    case False
    with StateChange st inv show ?thesis by simp
  next
    case True
    show ?thesis
    proof (cases "get_prop (automations s) entityId")
      case Undefined
      with True StateChange st inv show ?thesis by (simp add: findAndRun_def)
    next
      case Inherited
      with True StateChange st show ?thesis by (simp add: findAndRun_def)
    next
      case (Own rules)
      with True StateChange st have "s' = fst (run_automations h rules update from to s)"
        by (simp add: findAndRun_def)
      with timer_inv_run_automations [OF inv] show ?thesis by simp
    qed
  qed
next
  case (TimerFires timeout)
  with st have "s' = fst (fire_timer h timeout s)" by auto
  with timer_inv_fire_timer [OF inv] show ?thesis by simp
qed

lemma timer_inv_constructor:
  "constructor randomUUID readIfExists config = Inr (s, out) \<Longrightarrow> timer_inv s"
  by (auto simp add: constructor_def timer_inv_def split: sum.splits)

lemma timer_inv_reachable: "reachable s \<Longrightarrow> timer_inv s"
proof (induction rule: reachable.induct)
  case (constructed randomUUID readIfExists config s out)
  then show ?case by (rule timer_inv_constructor)
next
  case (stepped s h ev s' out)
  from stepped.IH stepped.hyps(2) show ?case by (rule timer_inv_step)
qed

lemma one_timer_per_rule:
  assumes "timer_inv s" and "timers s t1 = Some (a1, d1)" and "timers s t2 = Some (a2, d2)"
    and "r_id a1 = r_id a2"
  shows "t1 = t2"
  using timer_inv_owner [OF assms(1,2)] timer_inv_owner [OF assms(1,3)] assms(4) by simp

lemma match_while_pending:
  assumes "checkTrigger (ToNumber h) (r_trigger automation) update from to = MATCH"
    and "timeouts s (r_id automation) = Some timeout"
  shows "runAutomationIfMatches h automation update from to s
           = (s, [Debug (StartAutomation automation)])"
  using assms by (simp add: runAutomationIfMatches_def)

lemma fire_timer_removes:
  assumes "timers s timeout = Some (automation, time)"
  shows "timeouts (fst (fire_timer h timeout s)) (r_id automation) = None"
    and "timers (fst (fire_timer h timeout s)) timeout = None"
    and "snd (fire_timer h timeout s)
           = runActionsWithConditions h (r_condition automation) (r_action automation)"
  using assms by (simp_all add: fire_timer_def timeout_callback_def)

text \<open>The states of a run are reachable.\<close>

lemma run_reachable:
  "reachable s \<Longrightarrow> run h evs (s, out) = Inr (s', out') \<Longrightarrow> reachable s'"
proof (induction evs arbitrary: s out)
  case Nil
  then show ?case by simp
next
  case (Cons ev evs)
  from Cons.prems(2) obtain s1 out1 where st: "step h ev s = Inr (s1, out1)"
    and rest: "run h evs (s1, out @ out1) = Inr (s', out')"
    by (auto split: sum.splits)
  from Cons.prems(1) st have "reachable s1" by (rule reachable.stepped)
  from Cons.IH [OF this rest] show ?case .
qed

lemma run_config_reachable:
  assumes "run_config h randomUUID config evs = Inr (s, out)"
  shows "reachable s"
proof -
  from assms obtain s0 out0 where c: "constructor randomUUID (\<lambda>path. None) config = Inr (s0, out0)"
    and r: "run h evs (s0, out0) = Inr (s, out)"
    by (auto simp add: run_config_def split: sum.splits)
  from c have "reachable s0" by (rule reachable.constructed)
  from run_reachable [OF this r] show ?thesis .
qed

lemma example_pending_run:
  "run_config (example_host OFF) example_uuid (Mapping [example_entry (One ''X'')])
     [Start, StateChange ''X'' (snapshot ''state'' ON) (snapshot ''state'' OFF)
        (snapshot ''state'' ON)]
   = Inr (example_pending example_trigger,
        [Info PluginLoaded, Debug RegisteredAutomations,
         Debug (StartAutomation (example_rule example_trigger)),
         Debug (StartTimeout example_trigger)])"
  by (simp add: engine_defs name_defs example_defs Let_def)

text \<open>
  C6. (a) A MATCH for a rule id whose timer is pending changes nothing in the engine: no
  timer is started and the pending one stays. (b) A NEGATIVE_EDGE for a rule id removes its
  entry from \<^verbatim>\<open>this.timeouts\<close> and clears its timer. (c) A timer that fires removes the entry
  of its rule id, as cancelling does; in every state the engine can reach the bookkeeping is
  consistent, so that no two timers that are set belong to the same rule id.
\<close>

theorem pending_timer_invariants:
  "(checkTrigger (ToNumber h) (r_trigger automation) update from to = MATCH
      \<and> timeouts s (r_id automation) = Some timeout \<longrightarrow>
    runAutomationIfMatches h automation update from to s
      = (s, [Debug (StartAutomation automation)]))
 \<and> (checkTrigger (ToNumber h) (r_trigger automation) update from to = NEGATIVE_EDGE
      \<and> timeouts s (r_id automation) = Some timeout \<longrightarrow>
    timeouts (fst (runAutomationIfMatches h automation update from to s)) (r_id automation)
      = None
    \<and> timers (fst (runAutomationIfMatches h automation update from to s)) timeout = None)
 \<and> (timers s timeout = Some (automation, time) \<longrightarrow>
    timeouts (fst (fire_timer h timeout s)) (r_id automation) = None
    \<and> timers (fst (fire_timer h timeout s)) timeout = None)
 \<and> timeouts (stopTimeout (r_id automation) s) (r_id automation) = None
 \<and> (reachable s \<longrightarrow> timer_inv s)
 \<and> (reachable s \<and> timers s t1 = Some (a1, d1) \<and> timers s t2 = Some (a2, d2)
      \<and> r_id a1 = r_id a2 \<longrightarrow> t1 = t2)"
proof (intro conjI impI)
  assume "checkTrigger (ToNumber h) (r_trigger automation) update from to = MATCH
      \<and> timeouts s (r_id automation) = Some timeout"
  then show "runAutomationIfMatches h automation update from to s
      = (s, [Debug (StartAutomation automation)])"
    using match_while_pending by blast
next
  assume a: "checkTrigger (ToNumber h) (r_trigger automation) update from to = NEGATIVE_EDGE
      \<and> timeouts s (r_id automation) = Some timeout"
  then have eq: "runAutomationIfMatches h automation update from to s
      = (stopTimeout (r_id automation) s, [])"
    using negative_edge_stops_timeout by blast
  show "timeouts (fst (runAutomationIfMatches h automation update from to s)) (r_id automation)
      = None"
    by (simp add: eq stopTimeout_clears)
  show "timers (fst (runAutomationIfMatches h automation update from to s)) timeout = None"
    using a by (simp add: eq stopTimeout_clears)
next
  assume a: "timers s timeout = Some (automation, time)"
  from fire_timer_removes(1) [OF a]
  show "timeouts (fst (fire_timer h timeout s)) (r_id automation) = None" .
  from fire_timer_removes(2) [OF a]
  show "timers (fst (fire_timer h timeout s)) timeout = None" .
next
  show "timeouts (stopTimeout (r_id automation) s) (r_id automation) = None"
    by (rule stopTimeout_clears)
next
  assume "reachable s"
  then show "timer_inv s" by (rule timer_inv_reachable)
next
  assume a: "reachable s \<and> timers s t1 = Some (a1, d1) \<and> timers s t2 = Some (a2, d2)
      \<and> r_id a1 = r_id a2"
  then have "timer_inv s" using timer_inv_reachable by blast
  with a show "t1 = t2" using one_timer_per_rule by blast
qed

theorem pending_timer_invariants_witness:
  "reachable (example_pending example_trigger)
   \<and> timer_inv (example_pending example_trigger)
   \<and> timeouts (example_pending example_trigger) (example_uuid 0) = Some 0
   \<and> timers (example_pending example_trigger) 0
        = Some (example_rule example_trigger, Some (Fin 10))
   \<and> checkTrigger example_ToNumber example_trigger (snapshot ''state'' ON)
        (snapshot ''state'' OFF) (snapshot ''state'' ON) = MATCH
   \<and> runAutomationIfMatches (example_host OFF) (example_rule example_trigger)
        (snapshot ''state'' ON) (snapshot ''state'' OFF) (snapshot ''state'' ON)
        (example_pending example_trigger)
      = (example_pending example_trigger, [Debug (StartAutomation (example_rule example_trigger))])
   \<and> checkTrigger example_ToNumber example_trigger (snapshot ''state'' OFF)
        (snapshot ''state'' ON) (snapshot ''state'' OFF) = NEGATIVE_EDGE
   \<and> timers (fst (runAutomationIfMatches (example_host OFF) (example_rule example_trigger)
        (snapshot ''state'' OFF) (snapshot ''state'' ON) (snapshot ''state'' OFF)
        (example_pending example_trigger))) 0 = None
   \<and> timeouts (fst (fire_timer (example_host OFF) 0 (example_pending example_trigger)))
        (example_uuid 0) = None"
proof -
  let ?s = "example_pending example_trigger"
  let ?a = "example_rule example_trigger"
  let ?S = "snapshot ''state''"
  let ?h = "example_host OFF"
  have r: "reachable ?s"
    using example_pending_run by (rule run_config_reachable)
  have p: "timeouts ?s (r_id ?a) = Some 0"
    and t: "timers ?s 0 = Some (?a, Some (Fin 10))"
    and m: "checkTrigger (ToNumber ?h) (r_trigger ?a) (?S ON) (?S OFF) (?S ON) = MATCH"
    and n: "checkTrigger (ToNumber ?h) (r_trigger ?a) (?S OFF) (?S ON) (?S OFF) = NEGATIVE_EDGE"
    by (simp_all add: example_defs name_defs checkTrigger_def check_state_trigger_def
          hasOwnProperty_def array_includes_def)
  show ?thesis
    using r p t m n
      pending_timer_invariants [of ?h ?a "?S ON" "?S OFF" "?S ON" ?s 0 "Some (Fin 10)"
        0 ?a "Some (Fin 10)" 0 ?a "Some (Fin 10)"]
      pending_timer_invariants [of ?h ?a "?S OFF" "?S ON" "?S OFF" ?s 0 "Some (Fin 10)"
        0 ?a "Some (Fin 10)" 0 ?a "Some (Fin 10)"]
    by (simp add: example_host_def example_rule_def example_uuid_def)
qed

section \<open>Stopping the engine\<close>

text \<open>
  C1, as the code has it. \<^verbatim>\<open>stop\<close> only removes the engine's listener from the event bus:
  it leaves \<^verbatim>\<open>this.timeouts\<close> and the timers that are set as they are, and afterwards a
  state change is not processed (nothing starts, nothing is published). A timer that was
  pending when \<^verbatim>\<open>stop\<close> was called still fires, and then runs the rule's actions under its
  conditions.
\<close>

theorem stop_only_unregisters:
  "timeouts (stop s) = timeouts s
 \<and> timers (stop s) = timers s
 \<and> step h (StateChange entityId update from to) (stop s) = Inr (stop s, [])
 \<and> (timers s timeout = Some (automation, time) \<longrightarrow>
      snd (fire_timer h timeout (stop s))
        = runActionsWithConditions h (r_condition automation) (r_action automation))"
  by (simp add: stop_def fire_timer_def timeout_callback_def)

theorem stop_only_unregisters_witness:
  "timers (example_pending example_trigger) 0 = Some (example_rule example_trigger, Some (Fin 10))
   \<and> timeouts (stop (example_pending example_trigger)) (example_uuid 0) = Some 0
   \<and> step (example_host OFF)
        (StateChange ''X'' (snapshot ''state'' OFF) (snapshot ''state'' ON) (snapshot ''state'' OFF))
        (stop (example_pending example_trigger))
      = Inr (stop (example_pending example_trigger), [])
   \<and> published (snd (fire_timer (example_host OFF) 0 (stop (example_pending example_trigger))))
      = [(''zigbee2mqtt/Y/set'', StateData (Some ON))]"
proof -
  let ?s = "example_pending example_trigger"
  have t: "timers ?s 0 = Some (example_rule example_trigger, Some (Fin 10))"
    and p: "timeouts ?s (example_uuid 0) = Some 0"
    and a: "published (runActionsWithConditions (example_host OFF)
              (r_condition (example_rule example_trigger))
              (r_action (example_rule example_trigger)))
            = [(''zigbee2mqtt/Y/set'', StateData (Some ON))]"
    by (simp_all add: example_defs name_defs runAction_def newState_def)
  show ?thesis
    using t p a
      stop_only_unregisters [of ?s "example_host OFF" "''X''" "snapshot ''state'' OFF"
        "snapshot ''state'' ON" "snapshot ''state'' OFF" 0 "example_rule example_trigger"
        "Some (Fin 10)"]
    by simp
qed

text \<open>
  C1 as stated fails: the rule's timer is started by a match, the engine is stopped, nothing
  has been published; then the timer fires and the action is published.
\<close>

theorem stop_leaves_timer_counterexample:
  "published_by (run_config (example_host OFF) example_uuid (Mapping [example_entry (One ''X'')])
      [Start,
       StateChange ''X'' (snapshot ''state'' ON) (snapshot ''state'' OFF) (snapshot ''state'' ON),
       Stop])
     = []
   \<and> published_by (run_config (example_host OFF) example_uuid (Mapping [example_entry (One ''X'')])
      [Start,
       StateChange ''X'' (snapshot ''state'' ON) (snapshot ''state'' OFF) (snapshot ''state'' ON),
       Stop,
       TimerFires 0])
     = [(''zigbee2mqtt/Y/set'', StateData (Some ON))]"
  by (simp add: engine_defs name_defs example_defs Let_def)



section \<open>The earlier variant\<close>

text \<open>
  The earlier variant agrees with the properties of the state trigger, of the skipped action
  and of the rule store that are stated above for the later one.
\<close>

lemma state_trigger_match_ts:
  assumes "t_platform (ts_trigger automation) = STATE"
    and "hasOwnProperty update ''state''" and "hasOwnProperty from ''state''"
    and "hasOwnProperty to ''state''"
  shows "runAutomationIfMatches_ts h automation update from to =
           (if strict_eq (from ''state'') (to ''state'') then []
            else if array_includes (toArrayU (t_state (ts_trigger automation))) (update ''state'')
              then runActions_ts h (ts_action automation)
            else [])"
  using assms platform_names_distinct by (simp add: runAutomationIfMatches_ts_def)

lemma no_redundant_publish_ts:
  assumes "resolveEntity h (a_entity action) = Some destination"
    and "strict_eq (state_get h destination ''state'')
           (newState (a_service action) (state_get h destination ''state''))"
  shows "runActions_ts h (action # actions) = runActions_ts h actions"
  using assms by (simp add: runAction_ts_def newState_def Let_def)

lemma turn_on_when_on_ts:
  assumes "resolveEntity h (a_entity action) = Some destination"
    and "a_service action = TURN_ON" and "state_get h destination ''state'' = Some ON"
  shows "runActions_ts h [action] = []"
  using assms by (simp add: runAction_ts_def ON_def)

lemma unknown_service_dropped_ts:
  assumes "\<exists>a \<in> set (toArray (cfg_action automation)). \<not> array_includes services_ts (a_service a)"
  shows "parse_automation_ts automation result = Inr result"
  using assms by (simp add: parse_automation_ts_def Let_def)

lemma parseConfig_ts_throws_on_inherited_name:
  "parseConfig_ts [example_entry (One ''X''), example_entry (One ''constructor'')]
     = Inl TypeError"
  by (simp add: parseConfig_ts_def parse_automation_ts_def platforms_ts_def services_ts_def
        get_prop_def object_prototype_keys_def array_includes_def name_defs example_defs Let_def)


end
